theory Spec2Isabelle
  imports Main
begin

section \<open>The dispatch loop of \<open>useElmish\<close> (src/useElmish.ts)\<close>

text \<open>
  A shallow embedding of the hook \<open>useElmish\<close>: the variables its callbacks close over
  become a record that every function takes and returns, the calls into application code
  and into the optional hooks are recorded in a trace of events, exceptions are values,
  and the \<open>while\<close> loop of \<open>dispatch\<close> is a recursive function with a bound on the
  number of iterations (the loop need not end: a message whose command dispatches the
  same message again keeps it running).
\<close>

subsection \<open>Data\<close>

datatype jsval = JNum int | JStr string | JBool bool

text \<open>
  The own properties of a JavaScript object, in insertion order. Only own properties
  are modelled: there is no prototype chain.
\<close>

type_synonym fields = "(string \<times> jsval) list"

text \<open>
  An object is its properties together with its identity: \<open>!==\<close> on objects compares
  \<open>addr\<close>, never \<open>ownProps\<close>.
\<close>

record obj =
  addr :: nat
  ownProps :: fields

datatype msg = Msg (msgName: string) (payload: jsval)

datatype exn = TypeError string | Thrown string

text \<open>
  What an effect function \<open>call(dispatch)\<close> does while it runs: it calls the dispatcher
  it was given, and it may throw. An effect that dispatches later (from a timer or a
  promise) returns at once as far as the loop can tell; its later call of \<open>dispatch\<close> is a
  separate call from the host.
\<close>

datatype action = Dispatch msg | Throw exn

type_synonym effect = "action list"

type_synonym cmd = "effect list"

type_synonym update_result = "exn + (obj \<times> cmd option)"

text \<open>
  \<open>update\<close> is either a function \<open>(model, msg, props)\<close> or a map from message names to
  handlers \<open>(msg, model, props)\<close>; either may throw (\<open>Inl\<close>). The update logic is not
  given the dispatcher: what it does is what it returns. The object it returns may be the
  one it was given, the object \<open>initializedModel\<close>, or one of its own, with an identity of
  its own.
\<close>

datatype update =
    UpdateFunction "obj \<Rightarrow> msg \<Rightarrow> fields \<Rightarrow> update_result"
  | UpdateMap "string \<rightharpoonup> (msg \<Rightarrow> obj \<Rightarrow> fields \<Rightarrow> update_result)"

text \<open>
  The options of the hook, and the two process-wide optional hooks \<open>LoggerService\<close> and
  \<open>dispatchMiddleware\<close> (imported from \<open>./Init\<close>): \<open>logger\<close> and \<open>middleware\<close> say
  whether they are set. Both are modelled as recorders that return normally. A destructor
  returned by the subscription is named by a number.
\<close>

record env =
  name :: string
  props :: fields
  init :: "fields \<Rightarrow> fields \<times> cmd option"
  update :: update
  subscription :: "(obj option \<Rightarrow> cmd \<times> nat option) option"
  logger :: bool
  middleware :: bool

datatype event =
    MiddlewareCall msg
  | LogInfo string string
  | LogDebugMsg string msg
  | LogError exn
  | LogDebugModel string fields
  | BufferPush msg
  | UpdateCall msg obj
  | EffectCall effect
  | SetModel fields
  | SubscriptionCall "obj option"
  | DestructorCall nat

text \<open>
  The variables of the first render that \<open>dispatch\<close> and \<open>execCmd\<close> close over
  (\<open>reentered\<close>, \<open>buffer\<close>, \<open>currentModel\<close>, \<open>initializedModel\<close>), the host's state cell
  \<open>model\<close>, the identity that the next object built by the hook gets, the trace, and the
  host's bookkeeping for the hooks of the component (\<open>mounted\<close>, \<open>destructor\<close>). Of the
  accumulator and of the content of the state cell only the properties are kept: their
  identity is never compared. The events \<open>BufferPush\<close>, \<open>UpdateCall\<close>, \<open>EffectCall\<close>,
  \<open>SetModel\<close>, \<open>SubscriptionCall\<close> and \<open>DestructorCall\<close> record what the hook does, whether
  or not a logger or a middleware is set.
\<close>

record state =
  reentered :: bool
  buffer :: "msg list"
  currentModel :: fields
  initializedModel :: "obj option"
  model :: "fields option"
  nextAddr :: nat
  trace :: "event list"
  mounted :: bool
  destructor :: "nat option"

subsection \<open>Objects\<close>

fun assign :: "string \<Rightarrow> jsval \<Rightarrow> fields \<Rightarrow> fields" where
  "assign k v [] = [(k, v)]"
| "assign k v ((k', v') # ps) =
     (if k' = k then (k, v) # ps else (k', v') # assign k v ps)"

text \<open>\<open>{ ...a, ...b }\<close>: a new object that receives the properties of \<open>a\<close>, then those of \<open>b\<close>.\<close>

definition spread :: "fields \<Rightarrow> fields \<Rightarrow> fields" where
  "spread a b = foldl (\<lambda>acc (k, v). assign k v acc) [] (a @ b)"

text \<open>Spreading \<open>null\<close> contributes no property.\<close>

definition fieldsOf :: "obj option \<Rightarrow> fields" where
  "fieldsOf x = (case x of None \<Rightarrow> [] | Some y \<Rightarrow> ownProps y)"

definition nullable :: "fields option \<Rightarrow> fields" where
  "nullable x = (case x of None \<Rightarrow> [] | Some y \<Rightarrow> y)"

subsection \<open>The hooks\<close>

definition emit :: "event \<Rightarrow> state \<Rightarrow> state" where
  "emit e st = st\<lparr>trace := trace st @ [e]\<rparr>"

text \<open>\<open>LoggerService?.f(...)\<close>\<close>

definition log :: "env \<Rightarrow> event \<Rightarrow> state \<Rightarrow> state" where
  "log env e st = (if logger env then emit e st else st)"

subsection \<open>\<open>callUpdate\<close> and \<open>callUpdateMap\<close>\<close>

text \<open>
  The handler map is its lookup: \<open>None\<close> where \<open>updateMap[msg.name]\<close> is \<open>undefined\<close>, the
  map having no such entry. Calling \<open>undefined\<close> throws a \<open>TypeError\<close>.
\<close>

definition notAFunction :: exn where
  "notAFunction = TypeError ''updateMap[msg.name] is not a function''"

definition callUpdateMap ::
  "(string \<rightharpoonup> (msg \<Rightarrow> obj \<Rightarrow> fields \<Rightarrow> update_result)) \<Rightarrow> msg \<Rightarrow> obj \<Rightarrow> fields \<Rightarrow> update_result" where
  "callUpdateMap updateMap m mdl prps =
     (case updateMap (msgName m) of
        None \<Rightarrow> Inl notAFunction
      | Some handler \<Rightarrow> handler m mdl prps)"

fun callUpdate :: "update \<Rightarrow> msg \<Rightarrow> obj \<Rightarrow> fields \<Rightarrow> update_result" where
  "callUpdate (UpdateFunction f) m mdl prps = f mdl m prps"
| "callUpdate (UpdateMap updateMap) m mdl prps = callUpdateMap updateMap m mdl prps"

subsection \<open>\<open>dispatch\<close> and \<open>execCmd\<close>\<close>

text \<open>
  \<open>updatedModel !== initializedModel && Object.getOwnPropertyNames(updatedModel).length > 0\<close>
\<close>

definition modelHasChanged :: "obj option \<Rightarrow> obj \<Rightarrow> bool" where
  "modelHasChanged initialized updatedModel =
     (Some (addr updatedModel) \<noteq> map_option addr initialized \<and> 0 < length (ownProps updatedModel))"

text \<open>\<open>nextMsg = buffer.shift()\<close>\<close>

definition shift :: "state \<Rightarrow> msg option \<times> state" where
  "shift st = (case buffer st of [] \<Rightarrow> (None, st) | m # ms \<Rightarrow> (Some m, st\<lparr>buffer := ms\<rparr>))"

text \<open>\<open>{ ...initializedModel, ...currentModel }\<close>, a new object at every call of the update logic.\<close>

definition workingModel :: "state \<Rightarrow> obj" where
  "workingModel st =
     \<lparr>addr = nextAddr st, ownProps = spread (fieldsOf (initializedModel st)) (currentModel st)\<rparr>"

text \<open>
  The body of the \<open>if (modelHasChanged(newModel))\<close>: the accumulator and the flag
  \<open>modified\<close>.
\<close>

definition mergeIfChanged :: "obj \<Rightarrow> state \<times> bool \<Rightarrow> state \<times> bool" where
  "mergeIfChanged newModel sm =
     (if modelHasChanged (initializedModel (fst sm)) newModel
      then ((fst sm)\<lparr>currentModel := spread (currentModel (fst sm)) (ownProps newModel)\<rparr>, True)
      else sm)"

text \<open>
  \<open>setModel(prevModel => ...)\<close>: the host runs the function on its latest committed
  state and stores what it returns.
\<close>

definition commit :: "env \<Rightarrow> state \<Rightarrow> state" where
  "commit env st =
     (let updatedModel = spread (nullable (model st)) (currentModel st)
      in emit (SetModel updatedModel)
           ((log env (LogDebugModel (name env) updatedModel) st)\<lparr>model := Some updatedModel\<rparr>))"

text \<open>\<open>if (dispatchMiddleware) { dispatchMiddleware(msg); }\<close>\<close>

definition callMiddleware :: "env \<Rightarrow> msg \<Rightarrow> state \<Rightarrow> state" where
  "callMiddleware env m st = (if middleware env then emit (MiddlewareCall m) st else st)"

text \<open>\<open>buffer.push(msg)\<close>\<close>

definition push :: "msg \<Rightarrow> state \<Rightarrow> state" where
  "push m st = emit (BufferPush m) (st\<lparr>buffer := buffer st @ [m]\<rparr>)"

text \<open>
  The four functions call each other as in the source: \<open>dispatch\<close> runs the loop, the loop
  runs \<open>execCmd\<close>, \<open>execCmd\<close> runs each effect, and an effect calls \<open>dispatch\<close>. The first
  argument bounds the iterations of the loop; \<open>None\<close> is a run that needs more.
\<close>

function (sequential) dispatch :: "nat \<Rightarrow> env \<Rightarrow> state \<Rightarrow> msg \<Rightarrow> state option"
  and loop :: "nat \<Rightarrow> env \<Rightarrow> state \<Rightarrow> msg option \<Rightarrow> bool \<Rightarrow> (state \<times> bool) option"
  and execCmd :: "nat \<Rightarrow> env \<Rightarrow> cmd \<Rightarrow> state \<Rightarrow> state option"
  and runEffect :: "nat \<Rightarrow> env \<Rightarrow> effect \<Rightarrow> state \<Rightarrow> (exn option \<times> state) option"
where
  "dispatch n env st m =
     (if initializedModel st = None then Some st
      else
        let st1 = callMiddleware env m st
        in if reentered st1 then Some (push m st1)
           else
             (case loop n env (st1\<lparr>reentered := True\<rparr>) (Some m) False of
                None \<Rightarrow> None
              | Some (st2, modified) \<Rightarrow>
                  Some (if modified then commit env (st2\<lparr>reentered := False\<rparr>)
                        else st2\<lparr>reentered := False\<rparr>)))"
| "loop n env st None modified = Some (st, modified)"
| "loop 0 env st (Some m) modified = None"
| "loop (Suc n) env st (Some m) modified =
     (let st1 = log env (LogDebugMsg (name env) m) (log env (LogInfo (name env) (msgName m)) st);
          working = workingModel st1;
          st2 = emit (UpdateCall m working) (st1\<lparr>nextAddr := Suc (nextAddr st1)\<rparr>)
      in case
           (case callUpdate (update env) m working (props env) of
              Inl ex \<Rightarrow> Some (log env (LogError ex) st2, modified)
            | Inr (newModel, c) \<Rightarrow>
                (case mergeIfChanged newModel (st2, modified) of
                   (st3, modified') \<Rightarrow>
                     (case c of
                        None \<Rightarrow> Some (st3, modified')
                      | Some c' \<Rightarrow> map_option (\<lambda>s. (s, modified')) (execCmd n env c' st3))))
         of
           None \<Rightarrow> None
         | Some (st4, modified') \<Rightarrow>
             loop n env (snd (shift st4)) (fst (shift st4)) modified')"
| "execCmd n env [] st = Some st"
| "execCmd n env (call # rest) st =
     (case runEffect n env call (emit (EffectCall call) st) of
        None \<Rightarrow> None
      | Some (None, st') \<Rightarrow> execCmd n env rest st'
      | Some (Some ex, st') \<Rightarrow> execCmd n env rest (log env (LogError ex) st'))"
| "runEffect n env [] st = Some (None, st)"
| "runEffect n env (Throw ex # rest) st = Some (Some ex, st)"
| "runEffect n env (Dispatch m # rest) st =
     (case dispatch n env st m of
        None \<Rightarrow> None
      | Some st' \<Rightarrow> runEffect n env rest st')"
  by pat_completeness auto

termination
  by (relation "measures
        [\<lambda>x. case x of Inl (Inl (n, _)) \<Rightarrow> n | Inl (Inr (n, _)) \<Rightarrow> n
                   | Inr (Inl (n, _)) \<Rightarrow> n | Inr (Inr (n, _)) \<Rightarrow> n,
         \<lambda>x. case x of Inl (Inl _) \<Rightarrow> 1 | Inl (Inr _) \<Rightarrow> 0
                   | Inr (Inl _) \<Rightarrow> 3 | Inr (Inr _) \<Rightarrow> 2,
         \<lambda>x. case x of Inl _ \<Rightarrow> 0
                   | Inr (Inl (n, e, c, _)) \<Rightarrow> length c | Inr (Inr (n, e, c, _)) \<Rightarrow> length c]")
     auto

subsection \<open>The hook body and the host\<close>

text \<open>
  The first render: \<open>useState(null)\<close> gives \<open>null\<close>, and the variables of this render are
  the ones the memoised callbacks keep for the lifetime of the component.
\<close>

definition firstRender :: "state \<Rightarrow> state" where
  "firstRender st =
     st\<lparr>reentered := False, buffer := [], currentModel := [], model := None,
        initializedModel := None, mounted := True, destructor := None\<rparr>"

text \<open>
  \<open>if (!initializedModel) { ... }\<close> on the first render: the object that \<open>init\<close> returns
  is new, it becomes \<open>initializedModel\<close> and the content of the state cell, and the initial
  commands run.
\<close>

definition initialize :: "nat \<Rightarrow> env \<Rightarrow> state \<Rightarrow> state option" where
  "initialize n env st =
     (case init env (props env) of
        (initModel, initCmd) \<Rightarrow>
          let st1 = emit (SetModel initModel)
                      (st\<lparr>initializedModel := Some \<lparr>addr = nextAddr st, ownProps = initModel\<rparr>,
                          nextAddr := Suc (nextAddr st),
                          model := Some initModel\<rparr>)
          in case initCmd of None \<Rightarrow> Some st1 | Some c \<Rightarrow> execCmd n env c st1)"

text \<open>
  A later render: \<open>initializedModel\<close> is a variable of that render and starts as the
  content of the state cell; the callbacks are the memoised ones of the first render.
\<close>

definition rerender :: "nat \<Rightarrow> env \<Rightarrow> state \<Rightarrow> state option" where
  "rerender n env st =
     (case model st of
        Some mdl \<Rightarrow> Some st
      | None \<Rightarrow>
          (case init env (props env) of
             (initModel, initCmd) \<Rightarrow>
               let st1 = emit (SetModel initModel)
                           (st\<lparr>nextAddr := Suc (nextAddr st), model := Some initModel\<rparr>)
               in case initCmd of None \<Rightarrow> Some st1 | Some c \<Rightarrow> execCmd n env c st1))"

text \<open>
  The function passed to \<open>useEffect\<close>; what it returns is the cleanup that the host keeps.
\<close>

definition subscribe :: "nat \<Rightarrow> env \<Rightarrow> state \<Rightarrow> state option" where
  "subscribe n env st =
     (case subscription env of
        None \<Rightarrow> Some st
      | Some sub \<Rightarrow>
          (case sub (initializedModel st) of
             (subCmd, destr) \<Rightarrow>
               (case execCmd n env subCmd (emit (SubscriptionCall (initializedModel st)) st) of
                  None \<Rightarrow> None
                | Some st' \<Rightarrow> Some (st'\<lparr>destructor := destr\<rparr>))))"

text \<open>
  Modelled from the spec: the host framework, which is not part of the repository. The
  spec (section 6) gives it a reactive state cell, a memoised-callback primitive that keeps
  the dispatcher of the first render, and ``a post-render-effect hook that runs setup code
  once and allows returning a cleanup callback run on teardown''. The host renders the
  component, runs the effect after the first render, calls the dispatcher (from event
  handlers and from callbacks of effects that finish later), and tears the component down.
\<close>

datatype hostEvent = Render | Call msg | Unmount

definition teardown :: "state \<Rightarrow> state" where
  "teardown st = (case destructor st of None \<Rightarrow> st | Some d \<Rightarrow> emit (DestructorCall d) st)"

fun host :: "nat \<Rightarrow> env \<Rightarrow> hostEvent list \<Rightarrow> state \<Rightarrow> state option" where
  "host n env [] st = Some st"
| "host n env (Render # evs) st =
     (if mounted st then
        (case rerender n env st of None \<Rightarrow> None | Some st' \<Rightarrow> host n env evs st')
      else
        (case initialize n env (firstRender st) of
           None \<Rightarrow> None
         | Some st1 \<Rightarrow>
             (case subscribe n env st1 of None \<Rightarrow> None | Some st2 \<Rightarrow> host n env evs st2)))"
| "host n env (Call m # evs) st =
     (case dispatch n env st m of None \<Rightarrow> None | Some st' \<Rightarrow> host n env evs st')"
| "host n env (Unmount # evs) st = Some (teardown st)"

section \<open>Reading a run\<close>

text \<open>What an effect does: the messages it dispatches, and the error it ends with.\<close>

fun dispatched :: "effect \<Rightarrow> msg list" where
  "dispatched [] = []"
| "dispatched (Throw ex # rest) = []"
| "dispatched (Dispatch m # rest) = m # dispatched rest"

fun thrown :: "effect \<Rightarrow> exn option" where
  "thrown [] = None"
| "thrown (Throw ex # rest) = Some ex"
| "thrown (Dispatch m # rest) = thrown rest"

text \<open>The events of one call of \<open>dispatch\<close> while a cycle runs, and of one effect then.\<close>

definition enqueueEvents :: "env \<Rightarrow> msg \<Rightarrow> event list" where
  "enqueueEvents env m = (if middleware env then [MiddlewareCall m] else []) @ [BufferPush m]"

definition errorEvents :: "env \<Rightarrow> exn option \<Rightarrow> event list" where
  "errorEvents env r = (case r of None \<Rightarrow> [] | Some ex \<Rightarrow> if logger env then [LogError ex] else [])"

definition effectEvents :: "env \<Rightarrow> effect \<Rightarrow> event list" where
  "effectEvents env e =
     EffectCall e # concat (map (enqueueEvents env) (dispatched e)) @ errorEvents env (thrown e)"

definition enqueue :: "env \<Rightarrow> msg list \<Rightarrow> state \<Rightarrow> state" where
  "enqueue env ms st = foldl (\<lambda>s m. push m (callMiddleware env m s)) st ms"

text \<open>Projections of a trace.\<close>

definition processed :: "event list \<Rightarrow> msg list" where
  "processed tr = concat (map (\<lambda>e. case e of UpdateCall m w \<Rightarrow> [m] | _ \<Rightarrow> []) tr)"

definition pushed :: "event list \<Rightarrow> msg list" where
  "pushed tr = concat (map (\<lambda>e. case e of BufferPush m \<Rightarrow> [m] | _ \<Rightarrow> []) tr)"

definition effectCalls :: "event list \<Rightarrow> effect list" where
  "effectCalls tr = concat (map (\<lambda>e. case e of EffectCall c \<Rightarrow> [c] | _ \<Rightarrow> []) tr)"

definition hostWrites :: "event list \<Rightarrow> fields list" where
  "hostWrites tr = concat (map (\<lambda>e. case e of SetModel f \<Rightarrow> [f] | _ \<Rightarrow> []) tr)"

definition middlewareCalls :: "event list \<Rightarrow> msg list" where
  "middlewareCalls tr = concat (map (\<lambda>e. case e of MiddlewareCall m \<Rightarrow> [m] | _ \<Rightarrow> []) tr)"

definition subscriptionCalls :: "event list \<Rightarrow> obj option list" where
  "subscriptionCalls tr = concat (map (\<lambda>e. case e of SubscriptionCall x \<Rightarrow> [x] | _ \<Rightarrow> []) tr)"

definition destructorCalls :: "event list \<Rightarrow> nat list" where
  "destructorCalls tr = concat (map (\<lambda>e. case e of DestructorCall d \<Rightarrow> [d] | _ \<Rightarrow> []) tr)"

fun isLog :: "event \<Rightarrow> bool" where
  "isLog (LogInfo c n) = True"
| "isLog (LogDebugMsg c m) = True"
| "isLog (LogError ex) = True"
| "isLog (LogDebugModel c f) = True"
| "isLog e = False"

text \<open>A state without the calls of the logger in its trace.\<close>

definition unlogged :: "state \<Rightarrow> state" where
  "unlogged st = st\<lparr>trace := filter (\<lambda>e. \<not> isLog e) (trace st)\<rparr>"

text \<open>
  Whether the update call that an event records returned a model that the loop merges.
\<close>

definition modifies :: "env \<Rightarrow> obj option \<Rightarrow> event \<Rightarrow> bool" where
  "modifies env initialized e =
     (case e of
        UpdateCall m w \<Rightarrow>
          (case callUpdate (update env) m w (props env) of
             Inl ex \<Rightarrow> False
           | Inr (newModel, c) \<Rightarrow> modelHasChanged initialized newModel)
      | _ \<Rightarrow> False)"

text \<open>
  One iteration of the loop while the cycle runs, where every effect's call of \<open>dispatch\<close>
  only buffers.
\<close>

definition iteration :: "env \<Rightarrow> msg \<Rightarrow> state \<Rightarrow> bool \<Rightarrow> state \<times> bool" where
  "iteration env m st modified =
     (let st1 = log env (LogDebugMsg (name env) m) (log env (LogInfo (name env) (msgName m)) st);
          working = workingModel st1;
          st2 = emit (UpdateCall m working) (st1\<lparr>nextAddr := Suc (nextAddr st1)\<rparr>)
      in case callUpdate (update env) m working (props env) of
           Inl ex \<Rightarrow> (log env (LogError ex) st2, modified)
         | Inr (newModel, c) \<Rightarrow>
             (case mergeIfChanged newModel (st2, modified) of
                (st3, modified') \<Rightarrow>
                  (case c of
                     None \<Rightarrow> (st3, modified')
                   | Some c' \<Rightarrow>
                       (st3\<lparr>buffer := buffer st3 @ concat (map dispatched c'),
                            trace := trace st3 @ concat (map (effectEvents env) c')\<rparr>,
                        modified'))))"

text \<open>The events of one iteration and of the commit that ends a cycle.\<close>

definition receivedEvents :: "env \<Rightarrow> msg \<Rightarrow> event list" where
  "receivedEvents env m =
     (if logger env then [LogInfo (name env) (msgName m), LogDebugMsg (name env) m] else [])"

definition iterationEvents :: "env \<Rightarrow> msg \<Rightarrow> state \<Rightarrow> event list" where
  "iterationEvents env m st =
     receivedEvents env m @ UpdateCall m (workingModel st) #
       (case callUpdate (update env) m (workingModel st) (props env) of
          Inl ex \<Rightarrow> errorEvents env (Some ex)
        | Inr (newModel, c) \<Rightarrow>
            (case c of None \<Rightarrow> [] | Some c' \<Rightarrow> concat (map (effectEvents env) c')))"

text \<open>
  The state after an iteration whose update call threw: the object built for the call,
  the call and the logged error are all that it left.
\<close>

definition updateFailed :: "env \<Rightarrow> msg \<Rightarrow> exn \<Rightarrow> state \<Rightarrow> state" where
  "updateFailed env m ex st =
     st\<lparr>nextAddr := Suc (nextAddr st),
        trace := trace st @ receivedEvents env m @
                 UpdateCall m (workingModel st) # errorEvents env (Some ex)\<rparr>"

text \<open>The effects that the commands of \<open>init\<close> and of the update logic can hold.\<close>

definition producible :: "env \<Rightarrow> effect set" where
  "producible env =
     {e. (\<exists>c. snd (init env (props env)) = Some c \<and> e \<in> set c) \<or>
         (\<exists>m w newModel c. callUpdate (update env) m w (props env) = Inr (newModel, Some c) \<and>
                           e \<in> set c)}"

text \<open>
  What the events of a cycle are, from the message that starts it and the buffer it finds
  to the state in which the loop ends.
\<close>

definition cycleTrace :: "env \<Rightarrow> state \<Rightarrow> msg \<Rightarrow> bool \<Rightarrow> bool \<Rightarrow> event list \<Rightarrow> bool" where
  "cycleTrace env st m md md' tr =
     (processed tr = m # buffer st @ pushed tr \<and> hostWrites tr = [] \<and>
      subscriptionCalls tr = [] \<and> destructorCalls tr = [] \<and>
      middlewareCalls tr = (if middleware env then pushed tr else []) \<and>
      set (effectCalls tr) \<subseteq> producible env \<and>
      md' = (md \<or> (\<exists>e\<in>set tr. modifies env (initializedModel st) e)))"

definition sameCell :: "state \<Rightarrow> state \<Rightarrow> bool" where
  "sameCell st st' =
     (initializedModel st' = initializedModel st \<and> reentered st' = reentered st \<and>
      model st' = model st \<and> mounted st' = mounted st \<and> destructor st' = destructor st)"

definition commitEvents :: "env \<Rightarrow> fields \<Rightarrow> event list" where
  "commitEvents env f = (if logger env then [LogDebugModel (name env) f] else []) @ [SetModel f]"

text \<open>
  What a call from outside a cycle leaves as it was, and what its events never are: calls
  of the subscription or of its cleanup, or of an effect that neither \<open>init\<close> nor the
  update logic returned.
\<close>

definition sameHooks :: "state \<Rightarrow> state \<Rightarrow> bool" where
  "sameHooks st st' =
     (initializedModel st' = initializedModel st \<and> reentered st' = reentered st \<and>
      mounted st' = mounted st \<and> destructor st' = destructor st)"

definition quiet :: "env \<Rightarrow> event list \<Rightarrow> bool" where
  "quiet env tr =
     (subscriptionCalls tr = [] \<and> destructorCalls tr = [] \<and> set (effectCalls tr) \<subseteq> producible env)"

text \<open>The events of one effect of a command: its call, what it led to, and the logged error.\<close>

definition segment :: "env \<Rightarrow> effect \<Rightarrow> event list \<Rightarrow> event list" where
  "segment env call tr = EffectCall call # tr @ errorEvents env (thrown call)"

text \<open>The messages that the effects of the command returned for a message dispatch.\<close>

definition issues :: "env \<Rightarrow> msg \<Rightarrow> obj \<Rightarrow> msg list" where
  "issues env m w =
     (case callUpdate (update env) m w (props env) of
        Inl ex \<Rightarrow> []
      | Inr (newModel, c) \<Rightarrow>
          (case c of None \<Rightarrow> [] | Some c' \<Rightarrow> concat (map dispatched c')))"

text \<open>The same options without the logger.\<close>

definition silent :: "env \<Rightarrow> env" where
  "silent env = env\<lparr>logger := False\<rparr>"

section \<open>A counter component\<close>

text \<open>
  The component of the spec's example scenario, with more messages: \<open>Increment\<close> adds one
  to \<open>count\<close>, \<open>IncrementTwice\<close> also returns a command whose effect dispatches
  \<open>Increment\<close>, \<open>Unchanged\<close> returns the model it was given, \<open>Nothing\<close> returns an empty
  object, \<open>Fail\<close> throws, and \<open>Burst\<close> returns three effects, of which the second throws.
  The subscription returns one effect, which dispatches an \<open>Increment\<close> of its own, and
  the destructor 7.
  There is no handler for any other name. An object that a handler creates carries an
  identity away from those the hook hands out.
\<close>

definition num :: "string \<Rightarrow> fields \<Rightarrow> int" where
  "num k fs = (case map_of fs k of Some (JNum i) \<Rightarrow> i | _ \<Rightarrow> 0)"

definition lit :: "obj \<Rightarrow> fields \<Rightarrow> obj" where
  "lit mdl fs = \<lparr>addr = addr mdl + 1000, ownProps = fs\<rparr>"

definition increment :: msg where
  "increment = Msg ''Increment'' (JNum 0)"

definition tick :: msg where
  "tick = Msg ''Increment'' (JStr ''tick'')"

definition counterHandlers :: "string \<rightharpoonup> (msg \<Rightarrow> obj \<Rightarrow> fields \<Rightarrow> update_result)" where
  "counterHandlers =
     [''Increment'' \<mapsto>
        (\<lambda>m mdl p. Inr (lit mdl [(''count'', JNum (num ''count'' (ownProps mdl) + 1))], None)),
      ''IncrementTwice'' \<mapsto>
        (\<lambda>m mdl p. Inr (lit mdl [(''count'', JNum (num ''count'' (ownProps mdl) + 1))],
                         Some [[Dispatch increment]])),
      ''Unchanged'' \<mapsto> (\<lambda>m mdl p. Inr (mdl, None)),
      ''Nothing'' \<mapsto> (\<lambda>m mdl p. Inr (lit mdl [], Some [])),
      ''Fail'' \<mapsto> (\<lambda>m mdl p. Inl (Thrown ''update failed'')),
      ''Burst'' \<mapsto>
        (\<lambda>m mdl p. Inr (lit mdl [],
                         Some [[Dispatch increment, Dispatch (Msg ''Fail'' (JNum 0))],
                               [Dispatch (Msg ''Nothing'' (JNum 1)), Throw (Thrown ''effect failed''),
                                Dispatch increment],
                               [Dispatch increment]]))]"

definition counter :: env where
  "counter =
     \<lparr>name = ''Counter'', props = [],
      init = (\<lambda>p. ([(''count'', JNum 0)], None)),
      update = UpdateMap counterHandlers,
      subscription = Some (\<lambda>mdl. ([[Dispatch tick]], Some 7)),
      logger = True, middleware = True\<rparr>"

text \<open>The component before its first render, and after it with nothing dispatched yet.\<close>

definition unmounted :: state where
  "unmounted =
     \<lparr>reentered = False, buffer = [], currentModel = [], initializedModel = None,
      model = None, nextAddr = 0, trace = [], mounted = False, destructor = None\<rparr>"

definition idle :: state where
  "idle =
     \<lparr>reentered = False, buffer = [], currentModel = [],
      initializedModel = Some \<lparr>addr = 0, ownProps = [(''count'', JNum 0)]\<rparr>,
      model = Some [(''count'', JNum 0)], nextAddr = 1, trace = [], mounted = True,
      destructor = None\<rparr>"

text \<open>
  Messages, a state whose host content has a property that the model of the hook lacks,
  a state in the middle of a cycle with one message buffered, and the command of \<open>Burst\<close>.
\<close>

definition burst :: msg where
  "burst = Msg ''Burst'' (JNum 0)"


definition queued :: state where
  "queued = idle\<lparr>reentered := True, buffer := [increment]\<rparr>"

definition unchanged :: msg where
  "unchanged = Msg ''Unchanged'' (JNum 0)"

definition fail :: msg where
  "fail = Msg ''Fail'' (JNum 0)"


definition burstCmd :: cmd where
  "burstCmd =
     [[Dispatch increment, Dispatch fail],
      [Dispatch (Msg ''Nothing'' (JNum 1)), Throw (Thrown ''effect failed''), Dispatch increment],
      [Dispatch increment]]"

section \<open>Properties\<close>

declare dispatch.simps [simp del]
declare loop.simps(3) [simp del]

subsection \<open>Calls of \<open>dispatch\<close> while a cycle runs\<close>

lemma dispatch_reentered:
  "initializedModel st \<noteq> None \<Longrightarrow> reentered st \<Longrightarrow>
   dispatch n env st m = Some (push m (callMiddleware env m st))"
  by (auto simp add: dispatch.simps callMiddleware_def emit_def)

lemma push_callMiddleware:
  "push m (callMiddleware env m st) =
     st\<lparr>buffer := buffer st @ [m], trace := trace st @ enqueueEvents env m\<rparr>"
  by (simp add: push_def callMiddleware_def emit_def enqueueEvents_def)

lemma enqueue_eq:
  "enqueue env ms st =
     st\<lparr>buffer := buffer st @ ms, trace := trace st @ concat (map (enqueueEvents env) ms)\<rparr>"
  unfolding enqueue_def
  by (induction ms arbitrary: st) (simp_all add: push_callMiddleware)

lemma runEffect_reentered:
  "initializedModel st \<noteq> None \<Longrightarrow> reentered st \<Longrightarrow>
   runEffect n env e st = Some (thrown e, enqueue env (dispatched e) st)"
proof (induction e arbitrary: st rule: dispatched.induct)
  case 1
  then show ?case by (simp add: enqueue_def)
next
  case (2 ex rest)
  then show ?case by (simp add: enqueue_def)
next
  case (3 m rest)
  have "runEffect n env rest (push m (callMiddleware env m st)) =
        Some (thrown rest, enqueue env (dispatched rest) (push m (callMiddleware env m st)))"
    using 3 by (intro "3.IH") (simp_all add: push_callMiddleware)
  then show ?case using 3 by (simp add: dispatch_reentered enqueue_def)
qed

lemma execCmd_reentered:
  "initializedModel st \<noteq> None \<Longrightarrow> reentered st \<Longrightarrow>
   execCmd n env c st =
     Some (st\<lparr>buffer := buffer st @ concat (map dispatched c),
              trace := trace st @ concat (map (effectEvents env) c)\<rparr>)"
proof (induction c arbitrary: st)
  case Nil
  then show ?case by simp
next
  case (Cons call rest)
  let ?st1 = "enqueue env (dispatched call) (emit (EffectCall call) st)"
  have r: "runEffect n env call (emit (EffectCall call) st) = Some (thrown call, ?st1)"
    using Cons.prems by (intro runEffect_reentered) (simp_all add: emit_def)
  show ?case
  proof (cases "thrown call")
    case None
    have "execCmd n env rest ?st1 =
      Some (?st1\<lparr>buffer := buffer ?st1 @ concat (map dispatched rest),
              trace := trace ?st1 @ concat (map (effectEvents env) rest)\<rparr>)"
      using Cons.prems by (intro Cons.IH) (simp_all add: enqueue_eq emit_def)
    then show ?thesis using r None
      by (simp add: enqueue_eq emit_def effectEvents_def [of env call] errorEvents_def)
  next
    case (Some ex)
    let ?st2 = "log env (LogError ex) ?st1"
    have "execCmd n env rest ?st2 =
      Some (?st2\<lparr>buffer := buffer ?st2 @ concat (map dispatched rest),
              trace := trace ?st2 @ concat (map (effectEvents env) rest)\<rparr>)"
      using Cons.prems by (intro Cons.IH) (simp_all add: enqueue_eq emit_def log_def)
    then show ?thesis using r Some
      by (simp add: enqueue_eq emit_def effectEvents_def [of env call] errorEvents_def log_def)
  qed
qed

subsection \<open>The loop while a cycle runs\<close>

lemma mergeIfChanged_frame:
  "mergeIfChanged newModel (st, md) = (st', md') \<Longrightarrow>
     initializedModel st' = initializedModel st \<and> reentered st' = reentered st \<and>
     buffer st' = buffer st \<and> trace st' = trace st \<and> model st' = model st \<and>
     nextAddr st' = nextAddr st \<and> mounted st' = mounted st \<and> destructor st' = destructor st"
  by (auto simp add: mergeIfChanged_def split: if_splits)

lemma loop_Suc_reentered:
  assumes "initializedModel st \<noteq> None" "reentered st"
  shows "loop (Suc n) env st (Some m) md =
     loop n env (snd (shift (fst (iteration env m st md)))) (fst (shift (fst (iteration env m st md))))
       (snd (iteration env m st md))"
proof -
  let ?st1 = "log env (LogDebugMsg (name env) m) (log env (LogInfo (name env) (msgName m)) st)"
  let ?st2 = "emit (UpdateCall m (workingModel ?st1)) (?st1\<lparr>nextAddr := Suc (nextAddr ?st1)\<rparr>)"
  have a: "initializedModel ?st2 \<noteq> None" "reentered ?st2"
    using assms by (simp_all add: log_def emit_def)
  show ?thesis
  proof (cases "callUpdate (update env) m (workingModel ?st1) (props env)")
    case (Inl ex)
    then show ?thesis by (simp add: loop.simps(3) iteration_def Let_def)
  next
    case (Inr r)
    obtain newModel c where r: "r = (newModel, c)" by (cases r)
    obtain st3 md' where mg: "mergeIfChanged newModel (?st2, md) = (st3, md')"
      by (cases "mergeIfChanged newModel (?st2, md)")
    have b: "initializedModel st3 \<noteq> None" "reentered st3"
      using mergeIfChanged_frame [OF mg] a by simp_all
    show ?thesis
      using Inr r mg
      by (simp add: loop.simps(3) iteration_def Let_def execCmd_reentered [OF b] split: option.split)
  qed
qed

lemma processed_simps [simp]:
  "processed [] = []"
  "processed (tr @ tr') = processed tr @ processed tr'"
  "processed (e # tr) = (case e of UpdateCall m w \<Rightarrow> [m] | _ \<Rightarrow> []) @ processed tr"
  by (simp_all add: processed_def)

lemma pushed_simps [simp]:
  "pushed [] = []"
  "pushed (tr @ tr') = pushed tr @ pushed tr'"
  "pushed (e # tr) = (case e of BufferPush m \<Rightarrow> [m] | _ \<Rightarrow> []) @ pushed tr"
  by (simp_all add: pushed_def)

lemma effectCalls_simps [simp]:
  "effectCalls [] = []"
  "effectCalls (tr @ tr') = effectCalls tr @ effectCalls tr'"
  "effectCalls (e # tr) = (case e of EffectCall c \<Rightarrow> [c] | _ \<Rightarrow> []) @ effectCalls tr"
  by (simp_all add: effectCalls_def)

lemma hostWrites_simps [simp]:
  "hostWrites [] = []"
  "hostWrites (tr @ tr') = hostWrites tr @ hostWrites tr'"
  "hostWrites (e # tr) = (case e of SetModel f \<Rightarrow> [f] | _ \<Rightarrow> []) @ hostWrites tr"
  by (simp_all add: hostWrites_def)

lemma middlewareCalls_simps [simp]:
  "middlewareCalls [] = []"
  "middlewareCalls (tr @ tr') = middlewareCalls tr @ middlewareCalls tr'"
  "middlewareCalls (e # tr) = (case e of MiddlewareCall m \<Rightarrow> [m] | _ \<Rightarrow> []) @ middlewareCalls tr"
  by (simp_all add: middlewareCalls_def)

lemma subscriptionCalls_simps [simp]:
  "subscriptionCalls [] = []"
  "subscriptionCalls (tr @ tr') = subscriptionCalls tr @ subscriptionCalls tr'"
  "subscriptionCalls (e # tr) = (case e of SubscriptionCall x \<Rightarrow> [x] | _ \<Rightarrow> []) @ subscriptionCalls tr"
  by (simp_all add: subscriptionCalls_def)

lemma destructorCalls_simps [simp]:
  "destructorCalls [] = []"
  "destructorCalls (tr @ tr') = destructorCalls tr @ destructorCalls tr'"
  "destructorCalls (e # tr) = (case e of DestructorCall d \<Rightarrow> [d] | _ \<Rightarrow> []) @ destructorCalls tr"
  by (simp_all add: destructorCalls_def)

text \<open>The events of buffered calls and of effects are no update calls and no host writes.\<close>

lemma enqueueEvents_proj [simp]:
  "processed (enqueueEvents env m) = []"
  "pushed (enqueueEvents env m) = [m]"
  "effectCalls (enqueueEvents env m) = []"
  "hostWrites (enqueueEvents env m) = []"
  "subscriptionCalls (enqueueEvents env m) = []"
  "destructorCalls (enqueueEvents env m) = []"
  "middlewareCalls (enqueueEvents env m) = (if middleware env then [m] else [])"
  by (simp_all add: enqueueEvents_def)

lemma errorEvents_proj [simp]:
  "processed (errorEvents env r) = []"
  "pushed (errorEvents env r) = []"
  "effectCalls (errorEvents env r) = []"
  "hostWrites (errorEvents env r) = []"
  "subscriptionCalls (errorEvents env r) = []"
  "destructorCalls (errorEvents env r) = []"
  "middlewareCalls (errorEvents env r) = []"
  by (simp_all add: errorEvents_def split: option.split)

lemma enqueueAll_proj [simp]:
  "processed (concat (map (enqueueEvents env) ms)) = []"
  "pushed (concat (map (enqueueEvents env) ms)) = ms"
  "effectCalls (concat (map (enqueueEvents env) ms)) = []"
  "hostWrites (concat (map (enqueueEvents env) ms)) = []"
  "subscriptionCalls (concat (map (enqueueEvents env) ms)) = []"
  "destructorCalls (concat (map (enqueueEvents env) ms)) = []"
  "middlewareCalls (concat (map (enqueueEvents env) ms)) = (if middleware env then ms else [])"
  by (induction ms) simp_all

lemma effectEvents_proj [simp]:
  "processed (effectEvents env e) = []"
  "pushed (effectEvents env e) = dispatched e"
  "effectCalls (effectEvents env e) = [e]"
  "hostWrites (effectEvents env e) = []"
  "subscriptionCalls (effectEvents env e) = []"
  "destructorCalls (effectEvents env e) = []"
  "middlewareCalls (effectEvents env e) = (if middleware env then dispatched e else [])"
  by (simp_all add: effectEvents_def)

lemma cmdEvents_proj [simp]:
  "processed (concat (map (effectEvents env) c)) = []"
  "pushed (concat (map (effectEvents env) c)) = concat (map dispatched c)"
  "effectCalls (concat (map (effectEvents env) c)) = c"
  "hostWrites (concat (map (effectEvents env) c)) = []"
  "subscriptionCalls (concat (map (effectEvents env) c)) = []"
  "destructorCalls (concat (map (effectEvents env) c)) = []"
  "middlewareCalls (concat (map (effectEvents env) c)) = (if middleware env then concat (map dispatched c) else [])"
  by (induction c) simp_all

lemma modifies_simps [simp]:
  "modifies env i (MiddlewareCall m) = False"
  "modifies env i (LogInfo a b) = False"
  "modifies env i (LogDebugMsg a m) = False"
  "modifies env i (LogError ex) = False"
  "modifies env i (LogDebugModel a f) = False"
  "modifies env i (BufferPush m) = False"
  "modifies env i (EffectCall e) = False"
  "modifies env i (SetModel f) = False"
  "modifies env i (SubscriptionCall x) = False"
  "modifies env i (DestructorCall d) = False"
  by (simp_all add: modifies_def)

lemma effectEvents_modifies [simp]: "e \<in> set (effectEvents env c) \<Longrightarrow> \<not> modifies env i e"
  by (auto simp add: effectEvents_def enqueueEvents_def errorEvents_def split: option.splits if_splits)

lemma workingModel_log [simp]: "workingModel (log env e st) = workingModel st"
  by (simp add: workingModel_def log_def emit_def)

lemma received_log:
  "log env (LogDebugMsg (name env) m) (log env (LogInfo (name env) (msgName m)) st) =
     st\<lparr>trace := trace st @ receivedEvents env m\<rparr>"
  by (simp add: log_def emit_def receivedEvents_def)

lemma error_log:
  "log env (LogError ex) st = st\<lparr>trace := trace st @ errorEvents env (Some ex)\<rparr>"
  by (simp add: log_def emit_def errorEvents_def)

lemma iteration_frame:
  "initializedModel (fst (iteration env m st md)) = initializedModel st"
  "reentered (fst (iteration env m st md)) = reentered st"
  "model (fst (iteration env m st md)) = model st"
  "mounted (fst (iteration env m st md)) = mounted st"
  "destructor (fst (iteration env m st md)) = destructor st"
  "nextAddr (fst (iteration env m st md)) = Suc (nextAddr st)"
  by (simp_all add: iteration_def received_log emit_def log_def mergeIfChanged_def Let_def
        split: sum.split prod.split option.split)

lemma iteration_trace:
  "trace (fst (iteration env m st md)) = trace st @ iterationEvents env m st"
  by (simp add: iteration_def iterationEvents_def received_log error_log emit_def mergeIfChanged_def
        workingModel_def Let_def split: sum.split prod.split option.split)

lemma iterationEvents_proj [simp]:
  "processed (iterationEvents env m st) = [m]"
  "hostWrites (iterationEvents env m st) = []"
  "subscriptionCalls (iterationEvents env m st) = []"
  "destructorCalls (iterationEvents env m st) = []"
  by (simp_all add: iterationEvents_def receivedEvents_def split: sum.split prod.split option.split)

lemma iterationEvents_middleware:
  "middlewareCalls (iterationEvents env m st) =
     (if middleware env then pushed (iterationEvents env m st) else [])"
  by (simp add: iterationEvents_def receivedEvents_def split: sum.split prod.split option.split)

lemma iterationEvents_producible:
  "set (effectCalls (iterationEvents env m st)) \<subseteq> producible env"
  by (auto simp add: iterationEvents_def receivedEvents_def producible_def
        split: sum.splits prod.splits option.splits)

lemma iteration_buffer:
  "buffer (fst (iteration env m st md)) = buffer st @ pushed (iterationEvents env m st)"
  by (simp add: iteration_def iterationEvents_def received_log error_log emit_def mergeIfChanged_def
        receivedEvents_def workingModel_def Let_def split: sum.split prod.split option.split)

lemma cmdEvents_modifies: "e \<in> set (concat (map (effectEvents env) c)) \<Longrightarrow> \<not> modifies env i e"
  by auto

lemma iterationEvents_modifies:
  "(\<exists>e\<in>set (iterationEvents env m st). modifies env i e) =
     modifies env i (UpdateCall m (workingModel st))"
proof -
  have "\<And>e. e \<in> set (receivedEvents env m) \<Longrightarrow> \<not> modifies env i e"
    by (auto simp add: receivedEvents_def split: if_splits)
  moreover have "\<And>e ex. e \<in> set (errorEvents env ex) \<Longrightarrow> \<not> modifies env i e"
    by (auto simp add: errorEvents_def split: if_splits option.splits)
  ultimately show ?thesis
    using cmdEvents_modifies [of _ env _ i]
    by (auto simp add: iterationEvents_def split: sum.splits option.splits)
qed

lemma iteration_modified:
  "snd (iteration env m st md) =
     (md \<or> (\<exists>e\<in>set (iterationEvents env m st). modifies env (initializedModel st) e))"
  unfolding iterationEvents_modifies
  by (simp add: iteration_def received_log error_log emit_def mergeIfChanged_def modifies_def
        workingModel_def Let_def split: sum.split prod.split option.split)

lemma sameCell_iteration: "sameCell st (fst (iteration env m st md))"
  by (simp add: sameCell_def iteration_frame)

lemma loop_cycle:
  "loop n env st (Some m) md = Some (st', md') \<Longrightarrow> initializedModel st \<noteq> None \<Longrightarrow> reentered st \<Longrightarrow>
   buffer st' = [] \<and> sameCell st st' \<and> (\<exists>tr. trace st' = trace st @ tr \<and> cycleTrace env st m md md' tr)"
proof (induction n arbitrary: st m md)
  case 0
  then show ?case by simp
next
  case (Suc n)
  let ?st4 = "fst (iteration env m st md)"
  let ?md4 = "snd (iteration env m st md)"
  let ?ev = "iterationEvents env m st"
  have run: "loop n env (snd (shift ?st4)) (fst (shift ?st4)) ?md4 = Some (st', md')"
    using Suc.prems by (simp add: loop_Suc_reentered)
  have fr: "sameCell st ?st4" by (rule sameCell_iteration)
  have buf: "buffer ?st4 = buffer st @ pushed ?ev" by (rule iteration_buffer)
  have tr: "trace ?st4 = trace st @ ?ev" by (rule iteration_trace)
  have md4: "?md4 = (md \<or> (\<exists>e\<in>set ?ev. modifies env (initializedModel st) e))"
    by (rule iteration_modified)
  show ?case
  proof (cases "buffer ?st4")
    case Nil
    then have "st' = ?st4" "md' = ?md4" using run by (simp_all add: shift_def)
    moreover have "cycleTrace env st m md ?md4 ?ev"
      using buf Nil md4 iterationEvents_middleware [of env m st]
        iterationEvents_producible [of env m st]
      by (simp add: cycleTrace_def)
    ultimately show ?thesis using Nil fr tr by blast
  next
    case (Cons m' ms)
    let ?st5 = "?st4\<lparr>buffer := ms\<rparr>"
    have run': "loop n env ?st5 (Some m') ?md4 = Some (st', md')"
      using run Cons by (simp add: shift_def)
    have i5: "initializedModel ?st5 \<noteq> None" "reentered ?st5"
      using Suc.prems fr by (simp_all add: sameCell_def)
    from Suc.IH [OF run' i5]
    obtain tr' where ih: "buffer st' = []" "sameCell ?st5 st'" "trace st' = trace ?st5 @ tr'"
      "cycleTrace env ?st5 m' ?md4 md' tr'" by blast
    have "sameCell st st'" using ih(2) fr by (simp add: sameCell_def)
    moreover have "trace st' = trace st @ (?ev @ tr')" using ih(3) tr by simp
    moreover have "cycleTrace env st m md md' (?ev @ tr')"
    proof -
      have "initializedModel ?st5 = initializedModel st" using fr by (simp add: sameCell_def)
      then show ?thesis
        using ih(4) buf Cons md4 iterationEvents_middleware [of env m st]
          iterationEvents_producible [of env m st]
        by (auto simp add: cycleTrace_def)
    qed
    ultimately show ?thesis using ih(1) by blast
  qed
qed

lemma commit_eq:
  "commit env st =
     st\<lparr>model := Some (spread (nullable (model st)) (currentModel st)),
        trace := trace st @ commitEvents env (spread (nullable (model st)) (currentModel st))\<rparr>"
  by (simp add: commit_def commitEvents_def log_def emit_def Let_def)

lemma cycleTrace_cong:
  "buffer st0 = buffer st \<Longrightarrow> initializedModel st0 = initializedModel st \<Longrightarrow>
   cycleTrace env st0 m md md' tr = cycleTrace env st m md md' tr"
  by (simp add: cycleTrace_def)

lemma dispatch_top:
  assumes run: "dispatch n env st m = Some st'"
    and ini: "initializedModel st \<noteq> None" and top: "\<not> reentered st"
  shows "\<exists>tr md.
     cycleTrace env st m False md tr \<and>
     trace st' = trace st @ (if middleware env then [MiddlewareCall m] else []) @ tr
                   @ (if md then commitEvents env (spread (nullable (model st)) (currentModel st')) else []) \<and>
     model st' = (if md then Some (spread (nullable (model st)) (currentModel st')) else model st) \<and>
     buffer st' = [] \<and> \<not> reentered st' \<and> initializedModel st' = initializedModel st \<and>
     mounted st' = mounted st \<and> destructor st' = destructor st"
proof -
  let ?st0 = "(callMiddleware env m st)\<lparr>reentered := True\<rparr>"
  have st0: "initializedModel ?st0 = initializedModel st" "buffer ?st0 = buffer st"
    "model ?st0 = model st" "mounted ?st0 = mounted st" "destructor ?st0 = destructor st"
    "trace ?st0 = trace st @ (if middleware env then [MiddlewareCall m] else [])" "reentered ?st0"
    by (simp_all add: callMiddleware_def emit_def)
  have nr: "\<not> reentered (callMiddleware env m st)" using top by (simp add: callMiddleware_def emit_def)
  obtain st2 md where l: "loop n env ?st0 (Some m) False = Some (st2, md)"
    and r: "st' = (if md then commit env (st2\<lparr>reentered := False\<rparr>) else st2\<lparr>reentered := False\<rparr>)"
    using run ini nr by (auto simp add: dispatch.simps Let_def split: option.splits)
  have "initializedModel ?st0 \<noteq> None" using ini st0 by simp
  from loop_cycle [OF l this st0(7)]
  obtain tr where c: "buffer st2 = []" "sameCell ?st0 st2" "trace st2 = trace ?st0 @ tr"
    "cycleTrace env ?st0 m False md tr" by blast
  have ct: "cycleTrace env st m False md tr"
    using c(4) cycleTrace_cong [OF st0(2) st0(1)] by simp
  have cm: "currentModel st' = currentModel st2" using r by (simp add: commit_eq)
  have s2: "initializedModel st2 = initializedModel st" "model st2 = model st"
    "mounted st2 = mounted st" "destructor st2 = destructor st"
    using c(2) st0 by (simp_all add: sameCell_def)
  have "trace st' = trace st @ (if middleware env then [MiddlewareCall m] else []) @ tr
                   @ (if md then commitEvents env (spread (nullable (model st)) (currentModel st')) else [])"
    using r c(3) st0(6) s2(2) cm by (simp add: commit_eq)
  moreover have "model st' = (if md then Some (spread (nullable (model st)) (currentModel st')) else model st)"
    using r s2(2) cm by (simp add: commit_eq)
  moreover have "buffer st' = []" "\<not> reentered st'" "initializedModel st' = initializedModel st"
     "mounted st' = mounted st" "destructor st' = destructor st"
    using r c(1) s2 by (simp_all add: commit_eq)
  ultimately show ?thesis using ct by blast
qed

subsection \<open>Dispatch before initialization\<close>

text \<open>
  Claim C6. Calling \<open>dispatch\<close> before the model has been initialized is a silent no-op:
  the call returns, whatever the bound, and the state it returns is the state it was
  given, so no update logic was called, no hook was called, nothing was buffered and
  the host state was not written.
\<close>

theorem dispatch_before_init:
  "initializedModel st = None \<Longrightarrow> dispatch n env st m = Some st"
  by (simp add: dispatch.simps)

theorem dispatch_before_init_witness:
  "initializedModel unmounted = None \<and> dispatch 0 counter unmounted increment = Some unmounted"
proof -
  have h: "initializedModel unmounted = None" by (simp add: unmounted_def)
  show ?thesis using h dispatch_before_init [OF h, of 0 counter increment] by simp
qed

subsection \<open>Messages dispatched while a cycle runs\<close>

lemma dispatched_map_Dispatch [simp]: "dispatched (map Dispatch ms) = ms"
  by (induction ms) simp_all

lemma thrown_map_Dispatch [simp]: "thrown (map Dispatch ms) = None"
  by (induction ms) simp_all

lemma pushed_iterationEvents:
  "pushed (iterationEvents env m st) = issues env m (workingModel st)"
  by (simp add: iterationEvents_def receivedEvents_def issues_def
        split: sum.split prod.split option.split)

lemma loop_drains:
  "initializedModel st \<noteq> None \<Longrightarrow> reentered st \<Longrightarrow> length (buffer st) < n \<Longrightarrow>
   \<forall>m'\<in>set (m # buffer st). \<forall>w. issues env m' w = [] \<Longrightarrow>
   \<exists>st' md' tr. loop n env st (Some m) md = Some (st', md') \<and> trace st' = trace st @ tr \<and>
     pushed tr = []"
proof (induction n arbitrary: st m md)
  case 0
  then show ?case by simp
next
  case (Suc n)
  let ?st4 = "fst (iteration env m st md)"
  let ?md4 = "snd (iteration env m st md)"
  let ?ev = "iterationEvents env m st"
  have eq: "loop (Suc n) env st (Some m) md = loop n env (snd (shift ?st4)) (fst (shift ?st4)) ?md4"
    using Suc.prems by (simp add: loop_Suc_reentered)
  have p: "pushed ?ev = []" using Suc.prems(4) by (simp add: pushed_iterationEvents)
  have buf: "buffer ?st4 = buffer st" using p by (simp add: iteration_buffer)
  have tr: "trace ?st4 = trace st @ ?ev" by (rule iteration_trace)
  show ?case
  proof (cases "buffer st")
    case Nil
    then have "loop (Suc n) env st (Some m) md = Some (?st4, ?md4)"
      using eq buf by (simp add: shift_def)
    then show ?thesis using tr p by blast
  next
    case (Cons m' ms)
    let ?st5 = "?st4\<lparr>buffer := ms\<rparr>"
    have eq': "loop (Suc n) env st (Some m) md = loop n env ?st5 (Some m') ?md4"
      using eq buf Cons by (simp add: shift_def)
    have "initializedModel ?st5 \<noteq> None" "reentered ?st5" "length (buffer ?st5) < n"
      "\<forall>m''\<in>set (m' # buffer ?st5). \<forall>w. issues env m'' w = []"
      using Suc.prems Cons by (simp_all add: iteration_frame)
    from Suc.IH [OF this, of ?md4]
    obtain st' md' tr' where r: "loop n env ?st5 (Some m') ?md4 = Some (st', md')"
      "trace st' = trace ?st5 @ tr'" "pushed tr' = []" by blast
    have "trace st' = trace st @ (?ev @ tr')" "pushed (?ev @ tr') = []"
      using r tr p by simp_all
    moreover have "loop (Suc n) env st (Some m) md = Some (st', md')"
      using eq' r(1) by simp
    ultimately show ?thesis by blast
  qed
qed

lemma dispatch_drains:
  assumes ini: "initializedModel st \<noteq> None" and top: "\<not> reentered st" and emp: "buffer st = []"
    and q: "\<forall>m'\<in>set (issues env m (workingModel st)). \<forall>w. issues env m' w = []"
  shows "\<exists>st' tr. dispatch (Suc (length (issues env m (workingModel st)))) env st m = Some st' \<and>
           trace st' = trace st @ tr \<and> processed tr = m # issues env m (workingModel st) \<and>
           buffer st' = []"
proof -
  let ?ms = "issues env m (workingModel st)"
  let ?st0 = "(callMiddleware env m st)\<lparr>reentered := True\<rparr>"
  let ?st4 = "fst (iteration env m ?st0 False)"
  let ?md4 = "snd (iteration env m ?st0 False)"
  let ?ev = "iterationEvents env m ?st0"
  have s0: "initializedModel ?st0 \<noteq> None" "reentered ?st0" "buffer ?st0 = []"
    "workingModel ?st0 = workingModel st"
    using ini emp by (simp_all add: callMiddleware_def emit_def workingModel_def)
  have eq: "loop (Suc (length ?ms)) env ?st0 (Some m) False =
              loop (length ?ms) env (snd (shift ?st4)) (fst (shift ?st4)) ?md4"
    using s0 by (simp add: loop_Suc_reentered)
  have buf: "buffer ?st4 = ?ms"
    using s0 by (simp add: iteration_buffer pushed_iterationEvents)
  have tr4: "trace ?st4 = trace ?st0 @ ?ev" by (rule iteration_trace)
  have p4: "pushed ?ev = ?ms" using s0 by (simp add: pushed_iterationEvents)
  have "\<exists>st2 md tr. loop (Suc (length ?ms)) env ?st0 (Some m) False = Some (st2, md) \<and>
          trace st2 = trace ?st0 @ tr \<and> pushed tr = ?ms"
  proof (cases ?ms)
    case Nil
    then have "loop (Suc (length ?ms)) env ?st0 (Some m) False = Some (?st4, ?md4)"
      using eq buf by (simp add: shift_def)
    then show ?thesis using tr4 p4 by blast
  next
    case (Cons m' ms')
    let ?st5 = "?st4\<lparr>buffer := ms'\<rparr>"
    have "initializedModel ?st5 \<noteq> None" "reentered ?st5" "length (buffer ?st5) < length ?ms"
      "\<forall>m''\<in>set (m' # buffer ?st5). \<forall>w. issues env m'' w = []"
      using s0 q Cons by (simp_all add: iteration_frame)
    from loop_drains [OF this, of ?md4]
    obtain st2 md tr' where r: "loop (length ?ms) env ?st5 (Some m') ?md4 = Some (st2, md)"
      "trace st2 = trace ?st5 @ tr'" "pushed tr' = []" by blast
    have "loop (Suc (length ?ms)) env ?st0 (Some m) False = Some (st2, md)"
      using eq buf Cons r(1) by (simp add: shift_def)
    moreover have "trace st2 = trace ?st0 @ (?ev @ tr')" "pushed (?ev @ tr') = ?ms"
      using r(2,3) tr4 p4 by simp_all
    ultimately show ?thesis by blast
  qed
  then obtain st2 md tr where l: "loop (Suc (length ?ms)) env ?st0 (Some m) False = Some (st2, md)"
    and lt: "trace st2 = trace ?st0 @ tr" and lp: "pushed tr = ?ms"
    by blast
  from loop_cycle [OF l s0(1,2)]
  obtain tr' where c: "buffer st2 = []" "trace st2 = trace ?st0 @ tr'"
    "cycleTrace env ?st0 m False md tr'" by blast
  have "tr' = tr" using c(2) lt by simp
  then have pr: "processed tr = m # ?ms"
    using c(3) lp s0(3) by (simp add: cycleTrace_def)
  have nr: "\<not> reentered (callMiddleware env m st)"
    using top by (simp add: callMiddleware_def emit_def)
  let ?st' = "if md then commit env (st2\<lparr>reentered := False\<rparr>) else st2\<lparr>reentered := False\<rparr>"
  have run: "dispatch (Suc (length ?ms)) env st m = Some ?st'"
    using l ini nr by (auto simp add: dispatch.simps [of "Suc (length ?ms)"] Let_def)
  let ?mw = "if middleware env then [MiddlewareCall m] else []"
  let ?ce = "if md then commitEvents env (spread (nullable (model st2)) (currentModel st2)) else []"
  have "trace ?st' = trace st @ (?mw @ tr @ ?ce)"
    using lt by (simp add: commit_eq callMiddleware_def emit_def)
  moreover have "processed (?mw @ tr @ ?ce) = m # ?ms"
    using pr by (simp add: commitEvents_def)
  moreover have "buffer ?st' = []" using c(1) by (simp add: commit_eq)
  ultimately show ?thesis using run by blast
qed

text \<open>
  Claim C1. While a dispatch cycle runs, every message passed to \<open>dispatch\<close> is appended
  to the buffer, in the order of the calls: an effect that dispatches the messages \<open>ms\<close>
  leaves the buffer extended by \<open>ms\<close>. And when the outer call of \<open>dispatch\<close> returns,
  the update logic has been called once for the message of that call, for every message
  that was in the buffer and for every message that was pushed during the cycle, in that
  order, and the buffer is empty: no message was dropped, none was processed twice.
  The outer call does return when the messages that the effects of its message dispatch
  lead to no further dispatch: a bound of one more than their number is enough, and the
  update calls are then for the message and for those messages, in the order in which
  they were issued. (In general the loop need not end: a message can dispatch itself.)
\<close>

theorem reentrant_dispatch_fifo:
  assumes "initializedModel st \<noteq> None"
  shows "(reentered st \<longrightarrow>
            runEffect n env (map Dispatch ms) st =
              Some (None, st\<lparr>buffer := buffer st @ ms,
                             trace := trace st @ concat (map (enqueueEvents env) ms)\<rparr>)) \<and>
         (\<not> reentered st \<longrightarrow>
            (\<forall>st'. dispatch n env st m = Some st' \<longrightarrow>
               (\<exists>tr. trace st' = trace st @ tr \<and> processed tr = m # buffer st @ pushed tr \<and>
                     buffer st' = [] \<and> \<not> reentered st'))) \<and>
         (\<not> reentered st \<and> buffer st = [] \<and>
          (\<forall>m'\<in>set (issues env m (workingModel st)). \<forall>w. issues env m' w = []) \<longrightarrow>
            (\<exists>st' tr. dispatch (Suc (length (issues env m (workingModel st)))) env st m = Some st' \<and>
               trace st' = trace st @ tr \<and>
               processed tr = m # issues env m (workingModel st) \<and> buffer st' = []))"
proof (intro conjI impI allI)
  assume "reentered st"
  then show "runEffect n env (map Dispatch ms) st =
              Some (None, st\<lparr>buffer := buffer st @ ms,
                             trace := trace st @ concat (map (enqueueEvents env) ms)\<rparr>)"
    using assms by (simp add: runEffect_reentered enqueue_eq)
next
  fix st'
  assume top: "\<not> reentered st" and run: "dispatch n env st m = Some st'"
  from dispatch_top [OF run assms top]
  obtain tr md where c: "cycleTrace env st m False md tr"
    and t: "trace st' = trace st @ (if middleware env then [MiddlewareCall m] else []) @ tr
                   @ (if md then commitEvents env (spread (nullable (model st)) (currentModel st')) else [])"
    and b: "buffer st' = []" "\<not> reentered st'"
    by blast
  let ?tr = "(if middleware env then [MiddlewareCall m] else []) @ tr
                   @ (if md then commitEvents env (spread (nullable (model st)) (currentModel st')) else [])"
  have "processed ?tr = m # buffer st @ pushed ?tr"
    using c by (simp add: cycleTrace_def commitEvents_def)
  then show "\<exists>tr. trace st' = trace st @ tr \<and> processed tr = m # buffer st @ pushed tr \<and>
                     buffer st' = [] \<and> \<not> reentered st'"
    using t b by blast
next
  assume "\<not> reentered st \<and> buffer st = [] \<and>
          (\<forall>m'\<in>set (issues env m (workingModel st)). \<forall>w. issues env m' w = [])"
  then show "\<exists>st' tr. dispatch (Suc (length (issues env m (workingModel st)))) env st m = Some st' \<and>
               trace st' = trace st @ tr \<and>
               processed tr = m # issues env m (workingModel st) \<and> buffer st' = []"
    using dispatch_drains [OF assms, of env m] by blast
qed

lemma burst_issues:
  "issues counter burst (workingModel idle) =
     [increment, Msg ''Fail'' (JNum 0), Msg ''Nothing'' (JNum 1), increment]"
  by code_simp

lemma burst_issues_end:
  "\<forall>m'\<in>set (issues counter burst (workingModel idle)). \<forall>w. issues counter m' w = []"
  unfolding burst_issues
  by (simp add: issues_def counter_def callUpdateMap_def counterHandlers_def increment_def)

theorem reentrant_dispatch_fifo_witness:
  "runEffect 0 counter (map Dispatch [burst, increment]) queued =
     Some (None, queued\<lparr>buffer := [increment, burst, increment],
                        trace := [MiddlewareCall burst, BufferPush burst,
                                  MiddlewareCall increment, BufferPush increment]\<rparr>) \<and>
   (\<exists>st' tr. dispatch 5 counter idle burst = Some st' \<and> trace st' = trace idle @ tr \<and>
      processed tr = burst # buffer idle @ pushed tr \<and>
      processed tr = [burst, increment, Msg ''Fail'' (JNum 0), Msg ''Nothing'' (JNum 1), increment] \<and>
      buffer st' = [] \<and> \<not> reentered st')"
proof -
  have q: "initializedModel queued \<noteq> None" "reentered queued"
    by (simp_all add: queued_def idle_def)
  have i: "initializedModel idle \<noteq> None" "\<not> reentered idle" "buffer idle = []"
    by (simp_all add: idle_def)
  have a: "runEffect 0 counter (map Dispatch [burst, increment]) queued =
     Some (None, queued\<lparr>buffer := [increment, burst, increment],
                        trace := [MiddlewareCall burst, BufferPush burst,
                                  MiddlewareCall increment, BufferPush increment]\<rparr>)"
    using reentrant_dispatch_fifo [OF q(1), of 0 counter "[burst, increment]"] q(2)
    by (simp add: queued_def idle_def enqueueEvents_def counter_def)
  from reentrant_dispatch_fifo [OF i(1), of 5 counter "[]" burst] i(2,3) burst_issues_end
  obtain st' tr where d: "dispatch (Suc (length (issues counter burst (workingModel idle)))) counter idle burst = Some st'"
    "trace st' = trace idle @ tr" "processed tr = burst # issues counter burst (workingModel idle)"
    by blast
  have run: "dispatch 5 counter idle burst = Some st'"
    using d(1) by (simp add: burst_issues eval_nat_numeral)
  from reentrant_dispatch_fifo [OF i(1), of 5 counter "[]" burst] i(2) run
  obtain tr' where t: "trace st' = trace idle @ tr'" "processed tr' = burst # buffer idle @ pushed tr'"
    "buffer st' = []" "\<not> reentered st'" by blast
  have "tr' = tr" using t(1) d(2) by simp
  then show ?thesis using a run t d(3) by (simp add: burst_issues)
qed

subsection \<open>The commit at the end of a cycle\<close>



subsection \<open>What counts as a changed model\<close>

lemma empty_model_not_merged:
  "ownProps newModel = [] \<Longrightarrow> mergeIfChanged newModel sm = sm"
  by (simp add: mergeIfChanged_def modelHasChanged_def)

lemma initialized_model_not_merged:
  "initializedModel (fst sm) = Some i \<Longrightarrow> addr newModel = addr i \<Longrightarrow>
   mergeIfChanged newModel sm = sm"
  by (simp add: mergeIfChanged_def modelHasChanged_def)

text \<open>
  Claim C3. The claim says that a returned model which is the working model itself never
  leads to a write. The loop compares the returned model with \<open>initializedModel\<close>, and
  the working model that it hands to the update logic is a new object, so this run
  differs: the handler of \<open>Unchanged\<close> returns the object it was given, and the cycle
  merges it, writes the host state and logs the updated model. The same from the first
  render on: after the write of the initial model and the write that the subscription's
  \<open>Increment\<close> leads to, the message \<open>Unchanged\<close> leads to a third. (An empty object, and
  the object \<open>initializedModel\<close> itself, are not merged: the two lemmas above.)
\<close>

theorem returned_working_model_is_written:
  "callUpdate (update counter) unchanged (workingModel idle) (props counter) =
     Inr (workingModel idle, None) \<and>
   addr (workingModel idle) \<noteq> addr (the (initializedModel idle)) \<and>
   dispatch 1 counter idle unchanged =
     Some (idle\<lparr>currentModel := [(''count'', JNum 0)], nextAddr := 2,
                trace := [MiddlewareCall unchanged,
                          LogInfo ''Counter'' ''Unchanged'',
                          LogDebugMsg ''Counter'' unchanged,
                          UpdateCall unchanged \<lparr>addr = 1, ownProps = [(''count'', JNum 0)]\<rparr>,
                          LogDebugModel ''Counter'' [(''count'', JNum 0)],
                          SetModel [(''count'', JNum 0)]]\<rparr>) \<and>
   map_option (\<lambda>s. hostWrites (trace s)) (host 1 counter [Render, Call unchanged] unmounted) =
     Some [[(''count'', JNum 0)], [(''count'', JNum 1)], [(''count'', JNum 1)]] \<and>
   map_option (\<lambda>s. hostWrites (trace s)) (host 1 counter [Render] unmounted) =
     Some [[(''count'', JNum 0)], [(''count'', JNum 1)]]"
  by code_simp

subsection \<open>Errors of the update logic\<close>

lemma loop_update_error:
  assumes "callUpdate (update env) m (workingModel st) (props env) = Inl ex"
  shows "loop (Suc n) env st (Some m) modified =
     loop n env (snd (shift (updateFailed env m ex st))) (fst (shift (updateFailed env m ex st)))
       modified"
  using assms
  by (simp add: loop.simps(3) updateFailed_def received_log error_log emit_def workingModel_def
        Let_def)

lemma dispatch_update_error:
  assumes "callUpdate (update env) m (workingModel st) (props env) = Inl ex"
    and "initializedModel st \<noteq> None" "\<not> reentered st" "buffer st = []"
  shows "dispatch (Suc n) env st m = Some (updateFailed env m ex (callMiddleware env m st))"
proof -
  let ?st0 = "(callMiddleware env m st)\<lparr>reentered := True\<rparr>"
  have w: "workingModel ?st0 = workingModel st"
    by (simp add: workingModel_def callMiddleware_def emit_def)
  have "callUpdate (update env) m (workingModel ?st0) (props env) = Inl ex"
    using assms(1) w by simp
  from loop_update_error [OF this, of n False]
  have "loop (Suc n) env ?st0 (Some m) False = Some (updateFailed env m ex ?st0, False)"
    using assms(4) by (simp add: shift_def updateFailed_def callMiddleware_def emit_def)
  then show ?thesis
    using assms(2,3)
    by (auto simp add: dispatch.simps [of "Suc n"] updateFailed_def workingModel_def
          callMiddleware_def emit_def Let_def)
qed

lemma updateFailed_events:
  "\<exists>tr. trace (updateFailed env m ex st) = trace st @ tr \<and> processed tr = [m] \<and>
        effectCalls tr = [] \<and> pushed tr = [] \<and> hostWrites tr = [] \<and>
        filter isLog tr = receivedEvents env m @ errorEvents env (Some ex)"
proof -
  let ?tr = "receivedEvents env m @ UpdateCall m (workingModel st) # errorEvents env (Some ex)"
  have "trace (updateFailed env m ex st) = trace st @ ?tr"
    by (simp add: updateFailed_def)
  moreover have "processed ?tr = [m]" "effectCalls ?tr = []" "pushed ?tr = []" "hostWrites ?tr = []"
    "filter isLog ?tr = receivedEvents env m @ errorEvents env (Some ex)"
    by (simp_all add: receivedEvents_def errorEvents_def)
  ultimately show ?thesis by blast
qed

text \<open>
  Claim C4. When the update call for a message throws, the iteration leaves the state as
  \<open>updateFailed\<close> describes it: the error is logged, the accumulator \<open>currentModel\<close> and
  the flag \<open>modified\<close> are as before, no effect was called, nothing was written to the
  host state, and the loop goes on with the next buffered message. A call of \<open>dispatch\<close>
  whose only message fails returns, with the host state not written.
\<close>

theorem update_error_is_contained:
  assumes "callUpdate (update env) m (workingModel st) (props env) = Inl ex"
  shows "loop (Suc n) env st (Some m) modified =
           loop n env (snd (shift (updateFailed env m ex st)))
             (fst (shift (updateFailed env m ex st))) modified \<and>
         currentModel (updateFailed env m ex st) = currentModel st \<and>
         model (updateFailed env m ex st) = model st \<and>
         buffer (updateFailed env m ex st) = buffer st \<and>
         (\<exists>tr. trace (updateFailed env m ex st) = trace st @ tr \<and> processed tr = [m] \<and>
               effectCalls tr = [] \<and> pushed tr = [] \<and> hostWrites tr = [] \<and>
               filter isLog tr = receivedEvents env m @ errorEvents env (Some ex)) \<and>
         (initializedModel st \<noteq> None \<and> \<not> reentered st \<and> buffer st = [] \<longrightarrow>
            dispatch (Suc n) env st m = Some (updateFailed env m ex (callMiddleware env m st)))"
proof -
  have "currentModel (updateFailed env m ex st) = currentModel st"
    "model (updateFailed env m ex st) = model st" "buffer (updateFailed env m ex st) = buffer st"
    by (simp_all add: updateFailed_def)
  then show ?thesis
    using loop_update_error [OF assms] dispatch_update_error [OF assms]
      updateFailed_events [of env m ex st]
    by blast
qed

theorem update_error_is_contained_witness:
  "callUpdate (update counter) fail (workingModel idle) (props counter) = Inl (Thrown ''update failed'') \<and>
   dispatch 1 counter idle fail =
     Some (idle\<lparr>nextAddr := 2,
                trace := [MiddlewareCall fail, LogInfo ''Counter'' ''Fail'',
                          LogDebugMsg ''Counter'' fail,
                          UpdateCall fail \<lparr>addr = 1, ownProps = [(''count'', JNum 0)]\<rparr>,
                          LogError (Thrown ''update failed'')]\<rparr>) \<and>
   loop 2 counter (idle\<lparr>reentered := True, buffer := [increment]\<rparr>) (Some fail) False =
     loop 1 counter
       (idle\<lparr>reentered := True, nextAddr := 2,
             trace := [LogInfo ''Counter'' ''Fail'', LogDebugMsg ''Counter'' fail,
                       UpdateCall fail \<lparr>addr = 1, ownProps = [(''count'', JNum 0)]\<rparr>,
                       LogError (Thrown ''update failed'')]\<rparr>)
       (Some increment) False"
proof -
  have h: "callUpdate (update counter) fail (workingModel idle) (props counter) =
             Inl (Thrown ''update failed'')"
    by code_simp
  have h': "callUpdate (update counter) fail (workingModel (idle\<lparr>reentered := True, buffer := [increment]\<rparr>))
              (props counter) = Inl (Thrown ''update failed'')"
    by code_simp
  have i: "initializedModel idle \<noteq> None \<and> \<not> reentered idle \<and> buffer idle = []"
    by (simp add: idle_def)
  have a: "dispatch (Suc 0) counter idle fail =
             Some (updateFailed counter fail (Thrown ''update failed'') (callMiddleware counter fail idle))"
    using i update_error_is_contained [OF h, of 0 False] by blast
  let ?run = "idle\<lparr>reentered := True, buffer := [increment]\<rparr>"
  have b: "loop (Suc (Suc 0)) counter ?run (Some fail) False =
             loop (Suc 0) counter (snd (shift (updateFailed counter fail (Thrown ''update failed'') ?run)))
               (fst (shift (updateFailed counter fail (Thrown ''update failed'') ?run))) False"
    using update_error_is_contained [OF h', of 1 False] by simp
  show ?thesis
    using h a b
    by (simp add: updateFailed_def callMiddleware_def emit_def receivedEvents_def errorEvents_def
          workingModel_def spread_def fieldsOf_def shift_def idle_def counter_def fail_def
          numeral_2_eq_2)
qed

subsection \<open>A message without a handler\<close>



subsection \<open>Calls from any state\<close>

lemma sameHooks_refl [simp]: "sameHooks st st"
  by (simp add: sameHooks_def)

lemma sameHooks_trans: "sameHooks a b \<Longrightarrow> sameHooks b c \<Longrightarrow> sameHooks a c"
  by (simp add: sameHooks_def)

lemma quiet_Nil [simp]: "quiet env []"
  by (simp add: quiet_def)

lemma quiet_append [simp]: "quiet env (a @ b) = (quiet env a \<and> quiet env b)"
  by (auto simp add: quiet_def)

lemma quiet_enqueueEvents [simp]: "quiet env (enqueueEvents env' m)"
  by (simp add: quiet_def)

lemma quiet_errorEvents [simp]: "quiet env (errorEvents env' r)"
  by (simp add: quiet_def)

lemma quiet_commitEvents [simp]: "quiet env (commitEvents env' f)"
  by (simp add: quiet_def commitEvents_def)

lemma dispatch_any:
  assumes run: "dispatch n env st m = Some st'"
  shows "sameHooks st st' \<and> (\<exists>tr. trace st' = trace st @ tr \<and> quiet env tr)"
proof (cases "initializedModel st = None")
  case True
  then have "st' = st" using run by (simp add: dispatch.simps)
  then show ?thesis by simp
next
  case ini: False
  show ?thesis
  proof (cases "reentered st")
    case True
    then have "st' = st\<lparr>buffer := buffer st @ [m], trace := trace st @ enqueueEvents env m\<rparr>"
      using run ini by (simp add: dispatch_reentered push_callMiddleware)
    then have "sameHooks st st'" "trace st' = trace st @ enqueueEvents env m"
      by (simp_all add: sameHooks_def)
    then show ?thesis using quiet_enqueueEvents by blast
  next
    case False
    from dispatch_top [OF run ini False]
    obtain tr md where c: "cycleTrace env st m False md tr"
      and t: "trace st' = trace st @ (if middleware env then [MiddlewareCall m] else []) @ tr
                   @ (if md then commitEvents env (spread (nullable (model st)) (currentModel st')) else [])"
      and f: "\<not> reentered st'" "initializedModel st' = initializedModel st"
        "mounted st' = mounted st" "destructor st' = destructor st"
      by blast
    have "quiet env tr" using c by (simp add: cycleTrace_def quiet_def)
    moreover have "quiet env (if middleware env then [MiddlewareCall m] else [])"
      by (simp add: quiet_def)
    ultimately have "quiet env ((if middleware env then [MiddlewareCall m] else []) @ tr
                   @ (if md then commitEvents env (spread (nullable (model st)) (currentModel st')) else []))"
      by simp
    moreover have "sameHooks st st'" using f False by (simp add: sameHooks_def)
    ultimately show ?thesis using t by blast
  qed
qed

lemma runEffect_any:
  "runEffect n env e st = Some (r, st') \<Longrightarrow>
   r = thrown e \<and> sameHooks st st' \<and> (\<exists>tr. trace st' = trace st @ tr \<and> quiet env tr)"
proof (induction e arbitrary: st rule: dispatched.induct)
  case 1
  then show ?case by simp
next
  case (2 ex rest)
  then show ?case by simp
next
  case (3 m rest)
  from "3.prems" obtain st1 where d: "dispatch n env st m = Some st1"
    and r: "runEffect n env rest st1 = Some (r, st')"
    by (auto split: option.splits)
  from dispatch_any [OF d] obtain tr1 where a: "sameHooks st st1" "trace st1 = trace st @ tr1" "quiet env tr1"
    by blast
  from "3.IH" [OF r] obtain tr2 where b: "r = thrown rest" "sameHooks st1 st'"
    "trace st' = trace st1 @ tr2" "quiet env tr2" by blast
  have "trace st' = trace st @ (tr1 @ tr2)" using a b by simp
  moreover have "quiet env (tr1 @ tr2)" using a b by simp
  ultimately show ?case using b(1) sameHooks_trans [OF a(1) b(2)] by auto
qed

lemma execCmd_any:
  "execCmd n env c st = Some st' \<Longrightarrow>
   sameHooks st st' \<and>
   (\<exists>trs. length trs = length c \<and> (\<forall>tr\<in>set trs. quiet env tr) \<and>
          trace st' = trace st @ concat (map2 (segment env) c trs))"
proof (induction c arbitrary: st)
  case Nil
  then show ?case by simp
next
  case (Cons call rest)
  let ?st0 = "emit (EffectCall call) st"
  from Cons.prems obtain r st1 where e: "runEffect n env call ?st0 = Some (r, st1)"
    and x: "execCmd n env rest (st1\<lparr>trace := trace st1 @ errorEvents env r\<rparr>) = Some st'"
    by (auto simp add: error_log errorEvents_def split: option.splits)
  let ?st2 = "st1\<lparr>trace := trace st1 @ errorEvents env r\<rparr>"
  from runEffect_any [OF e] obtain tr1 where a: "r = thrown call" "sameHooks ?st0 st1"
    "trace st1 = trace ?st0 @ tr1" "quiet env tr1" by blast
  from Cons.IH [OF x] obtain trs where b: "sameHooks ?st2 st'" "length trs = length rest"
    "\<forall>tr\<in>set trs. quiet env tr" "trace st' = trace ?st2 @ concat (map2 (segment env) rest trs)"
    by blast
  have h: "sameHooks st st'" using a(2) b(1) by (simp add: sameHooks_def emit_def)
  have "trace st' = trace st @ concat (map2 (segment env) (call # rest) (tr1 # trs))"
    using a b(4) by (simp add: segment_def emit_def)
  moreover have "length (tr1 # trs) = length (call # rest)" using b(2) by simp
  moreover have "\<forall>tr\<in>set (tr1 # trs). quiet env tr" using a(4) b(3) by simp
  ultimately show ?case using h by blast
qed

subsection \<open>Command execution\<close>

lemma runEffect_silent:
  "dispatched e = [] \<Longrightarrow> runEffect n env e st = Some (thrown e, st)"
  by (induction e rule: dispatched.induct) simp_all

lemma execCmd_silent:
  "\<forall>call\<in>set c. dispatched call = [] \<Longrightarrow>
   execCmd n env c st = Some (st\<lparr>trace := trace st @ concat (map (effectEvents env) c)\<rparr>)"
proof (induction c arbitrary: st)
  case Nil
  then show ?case by simp
next
  case (Cons call rest)
  have d: "dispatched call = []" "\<forall>call\<in>set rest. dispatched call = []"
    using Cons.prems by simp_all
  have e: "effectEvents env call = EffectCall call # errorEvents env (thrown call)"
    using d(1) by (simp add: effectEvents_def)
  show ?case
  proof (cases "thrown call")
    case None
    then show ?thesis
      using Cons.IH [OF d(2), of "emit (EffectCall call) st"] d(1) e
      by (simp add: runEffect_silent emit_def errorEvents_def)
  next
    case (Some ex)
    then show ?thesis
      using Cons.IH [OF d(2), of "log env (LogError ex) (emit (EffectCall call) st)"] d(1) e
      by (simp add: runEffect_silent emit_def error_log)
  qed
qed

text \<open>
  Claim C5. \<open>execCmd\<close> calls every effect of the command, in list order: the events of a
  run that returns are one segment for each effect, in the order of the list, and a
  segment starts with the call of its effect and, when the effect throws, ends with the
  logged error, after which the segments of the remaining effects follow. While a cycle
  runs (where commands are executed by the loop) \<open>execCmd\<close> always returns, whatever the
  effects throw: the buffer then holds what the effects dispatched, and the loop goes on.
  In any state, \<open>execCmd\<close> returns when no effect dispatches before it ends or throws.
  (Outside a cycle an effect that dispatches starts a cycle of its own, which need not
  end.)
\<close>

theorem effects_run_in_order:
  "(\<forall>st'. execCmd n env c st = Some st' \<longrightarrow>
      (\<exists>trs. length trs = length c \<and>
             trace st' = trace st @ concat (map2 (segment env) c trs))) \<and>
   (initializedModel st \<noteq> None \<and> reentered st \<longrightarrow>
      execCmd n env c st =
        Some (st\<lparr>buffer := buffer st @ concat (map dispatched c),
                 trace := trace st @ concat (map (effectEvents env) c)\<rparr>)) \<and>
   ((\<forall>call\<in>set c. dispatched call = []) \<longrightarrow>
      execCmd n env c st = Some (st\<lparr>trace := trace st @ concat (map (effectEvents env) c)\<rparr>))"
  using execCmd_any [of n env c st] execCmd_reentered [of st n env c]
    execCmd_silent [of c n env st]
  by blast

theorem effects_run_in_order_witness:
  "(\<exists>st' trs. execCmd 1 counter burstCmd idle = Some st' \<and> length trs = 3 \<and>
      trace st' = concat (map2 (segment counter) burstCmd trs) \<and>
      effectCalls (trace st') = burstCmd \<and>
      filter isLog (trace st') \<noteq> []) \<and>
   execCmd 0 counter burstCmd queued =
     Some (queued\<lparr>buffer := [increment, increment, fail, Msg ''Nothing'' (JNum 1), increment],
                  trace := [EffectCall [Dispatch increment, Dispatch fail],
                            MiddlewareCall increment, BufferPush increment,
                            MiddlewareCall fail, BufferPush fail,
                            EffectCall [Dispatch (Msg ''Nothing'' (JNum 1)),
                                        Throw (Thrown ''effect failed''), Dispatch increment],
                            MiddlewareCall (Msg ''Nothing'' (JNum 1)),
                            BufferPush (Msg ''Nothing'' (JNum 1)),
                            LogError (Thrown ''effect failed''),
                            EffectCall [Dispatch increment],
                            MiddlewareCall increment, BufferPush increment]\<rparr>) \<and>
   execCmd 0 counter [[Throw (Thrown ''effect failed''), Dispatch increment], []] unmounted =
     Some (unmounted\<lparr>trace := [EffectCall [Throw (Thrown ''effect failed''), Dispatch increment],
                                 LogError (Thrown ''effect failed''), EffectCall []]\<rparr>)"
proof -
  have "execCmd 1 counter burstCmd idle \<noteq> None" by code_simp
  then obtain st' where run: "execCmd 1 counter burstCmd idle = Some st'" by blast
  from effects_run_in_order [of 1 counter burstCmd idle] run
  obtain trs where t: "length trs = length burstCmd"
    "trace st' = trace idle @ concat (map2 (segment counter) burstCmd trs)" by blast
  have e: "effectCalls (trace (the (execCmd 1 counter burstCmd idle))) = burstCmd"
    "filter isLog (trace (the (execCmd 1 counter burstCmd idle))) \<noteq> []"
    by code_simp+
  have a: "\<exists>st' trs. execCmd 1 counter burstCmd idle = Some st' \<and> length trs = 3 \<and>
      trace st' = concat (map2 (segment counter) burstCmd trs) \<and>
      effectCalls (trace st') = burstCmd \<and> filter isLog (trace st') \<noteq> []"
  proof -
    have l: "length burstCmd = 3" by (simp add: burstCmd_def)
    have n: "trace idle = []" by (simp add: idle_def)
    have "length trs = 3" using t(1) l by simp
    moreover have "trace st' = concat (map2 (segment counter) burstCmd trs)"
      using t(2) n by simp
    moreover have "effectCalls (trace st') = burstCmd" "filter isLog (trace st') \<noteq> []"
      using e run by simp_all
    ultimately show ?thesis using run by blast
  qed
  have q: "initializedModel queued \<noteq> None \<and> reentered queued"
    by (simp add: queued_def idle_def)
  have b: "execCmd 0 counter burstCmd queued =
     Some (queued\<lparr>buffer := [increment, increment, fail, Msg ''Nothing'' (JNum 1), increment],
                  trace := [EffectCall [Dispatch increment, Dispatch fail],
                            MiddlewareCall increment, BufferPush increment,
                            MiddlewareCall fail, BufferPush fail,
                            EffectCall [Dispatch (Msg ''Nothing'' (JNum 1)),
                                        Throw (Thrown ''effect failed''), Dispatch increment],
                            MiddlewareCall (Msg ''Nothing'' (JNum 1)),
                            BufferPush (Msg ''Nothing'' (JNum 1)),
                            LogError (Thrown ''effect failed''),
                            EffectCall [Dispatch increment],
                            MiddlewareCall increment, BufferPush increment]\<rparr>)"
    using q effects_run_in_order [of 0 counter burstCmd queued]
    by (simp add: burstCmd_def queued_def idle_def effectEvents_def enqueueEvents_def
          errorEvents_def counter_def)
  have "\<forall>call\<in>set [[Throw (Thrown ''effect failed''), Dispatch increment], []]. dispatched call = []"
    by simp
  then have c: "execCmd 0 counter [[Throw (Thrown ''effect failed''), Dispatch increment], []] unmounted =
     Some (unmounted\<lparr>trace := [EffectCall [Throw (Thrown ''effect failed''), Dispatch increment],
                                 LogError (Thrown ''effect failed''), EffectCall []]\<rparr>)"
    using effects_run_in_order
            [of 0 counter "[[Throw (Thrown ''effect failed''), Dispatch increment], []]" unmounted]
    by (simp add: effectEvents_def errorEvents_def counter_def unmounted_def)
  show ?thesis using a b c by blast
qed

subsection \<open>The dispatch middleware\<close>




subsection \<open>Running without the logger\<close>

lemma silent_fields [simp]:
  "name (silent env) = name env" "props (silent env) = props env" "init (silent env) = init env"
  "update (silent env) = update env" "subscription (silent env) = subscription env"
  "middleware (silent env) = middleware env" "logger (silent env) = False"
  by (simp_all add: silent_def)

lemma unlogged_fields [simp]:
  "reentered (unlogged st) = reentered st" "buffer (unlogged st) = buffer st"
  "currentModel (unlogged st) = currentModel st"
  "initializedModel (unlogged st) = initializedModel st" "model (unlogged st) = model st"
  "nextAddr (unlogged st) = nextAddr st" "mounted (unlogged st) = mounted st"
  "destructor (unlogged st) = destructor st"
  "trace (unlogged st) = filter (\<lambda>e. \<not> isLog e) (trace st)"
  by (simp_all add: unlogged_def)

lemma unlogged_updates [simp]:
  "unlogged (st\<lparr>reentered := r\<rparr>) = (unlogged st)\<lparr>reentered := r\<rparr>"
  "unlogged (st\<lparr>buffer := b\<rparr>) = (unlogged st)\<lparr>buffer := b\<rparr>"
  "unlogged (st\<lparr>currentModel := c\<rparr>) = (unlogged st)\<lparr>currentModel := c\<rparr>"
  "unlogged (st\<lparr>initializedModel := i\<rparr>) = (unlogged st)\<lparr>initializedModel := i\<rparr>"
  "unlogged (st\<lparr>model := h\<rparr>) = (unlogged st)\<lparr>model := h\<rparr>"
  "unlogged (st\<lparr>nextAddr := a\<rparr>) = (unlogged st)\<lparr>nextAddr := a\<rparr>"
  "unlogged (st\<lparr>mounted := b'\<rparr>) = (unlogged st)\<lparr>mounted := b'\<rparr>"
  "unlogged (st\<lparr>destructor := d\<rparr>) = (unlogged st)\<lparr>destructor := d\<rparr>"
  "unlogged (st\<lparr>trace := tr\<rparr>) = st\<lparr>trace := filter (\<lambda>e. \<not> isLog e) tr\<rparr>"
  by (simp_all add: unlogged_def)

lemma unlogged_emit:
  "unlogged (emit e st) = (if isLog e then unlogged st else emit e (unlogged st))"
  by (simp add: unlogged_def emit_def)

lemma unlogged_log: "isLog e \<Longrightarrow> unlogged (log env e st) = unlogged st"
  by (simp add: log_def unlogged_emit)

lemma log_silent [simp]: "log (silent env) e st = st"
  by (simp add: log_def)

lemma workingModel_unlogged [simp]: "workingModel (unlogged st) = workingModel st"
  by (simp add: workingModel_def)

lemma workingModel_trace [simp]: "workingModel (st\<lparr>trace := tr\<rparr>) = workingModel st"
  by (simp add: workingModel_def)

lemma keep_enqueueEvents [simp]:
  "filter (\<lambda>e. \<not> isLog e) (enqueueEvents env m) = enqueueEvents (silent env) m"
  by (simp add: enqueueEvents_def)

lemma keep_enqueueAll [simp]:
  "filter (\<lambda>e. \<not> isLog e) (concat (map (enqueueEvents env) ms)) =
     concat (map (enqueueEvents (silent env)) ms)"
  by (induction ms) simp_all

lemma keep_errorEvents [simp]:
  "filter (\<lambda>e. \<not> isLog e) (errorEvents env r) = []" "errorEvents (silent env) r = []"
  by (simp_all add: errorEvents_def split: option.split)

lemma keep_effectEvents [simp]:
  "filter (\<lambda>e. \<not> isLog e) (effectEvents env c) = effectEvents (silent env) c"
  by (simp add: effectEvents_def)

lemma keep_cmdEvents [simp]:
  "filter (\<lambda>e. \<not> isLog e) (concat (map (effectEvents env) c)) =
     concat (map (effectEvents (silent env)) c)"
  by (induction c) simp_all

lemma keep_receivedEvents [simp]:
  "filter (\<lambda>e. \<not> isLog e) (receivedEvents env m) = []" "receivedEvents (silent env) m = []"
  by (simp_all add: receivedEvents_def)

lemma mergeIfChanged_unlogged:
  "mergeIfChanged newModel (unlogged st, md) =
     (unlogged (fst (mergeIfChanged newModel (st, md))), snd (mergeIfChanged newModel (st, md)))"
  by (simp add: mergeIfChanged_def)

lemma iteration_unlogged:
  "iteration (silent env) m (unlogged st) md =
     (unlogged (fst (iteration env m st md)), snd (iteration env m st md))"
proof -
  let ?st2 = "emit (UpdateCall m (workingModel st))
                (st\<lparr>trace := trace st @ receivedEvents env m, nextAddr := Suc (nextAddr st)\<rparr>)"
  let ?u2 = "emit (UpdateCall m (workingModel st)) ((unlogged st)\<lparr>nextAddr := Suc (nextAddr st)\<rparr>)"
  have u: "unlogged ?st2 = ?u2" by (simp add: unlogged_def emit_def)
  show ?thesis
  proof (cases "callUpdate (update env) m (workingModel st) (props env)")
    case (Inl ex)
    then show ?thesis
      using u by (simp add: iteration_def received_log error_log Let_def unlogged_def emit_def)
  next
    case (Inr r)
    obtain newModel c where r: "r = (newModel, c)" by (cases r)
    obtain st3 md' where mg: "mergeIfChanged newModel (?st2, md) = (st3, md')"
      by (cases "mergeIfChanged newModel (?st2, md)")
    have mg': "mergeIfChanged newModel (?u2, md) = (unlogged st3, md')"
      using mergeIfChanged_unlogged [of newModel ?st2 md] mg u by simp
    show ?thesis
      using Inr r mg mg'
      by (simp add: iteration_def received_log Let_def unlogged_def split: option.split)
  qed
qed

lemma shift_unlogged:
  "shift (unlogged st) = (fst (shift st), unlogged (snd (shift st)))"
  by (simp add: shift_def split: list.split)

lemma shift_frame:
  "initializedModel (snd (shift st)) = initializedModel st" "reentered (snd (shift st)) = reentered st"
  by (simp_all add: shift_def split: list.split)

lemma loop_unlogged:
  "initializedModel st \<noteq> None \<Longrightarrow> reentered st \<Longrightarrow>
   loop n (silent env) (unlogged st) nm md =
     map_option (\<lambda>sm. (unlogged (fst sm), snd sm)) (loop n env st nm md)"
proof (induction n arbitrary: st nm md)
  case 0
  then show ?case by (cases nm) simp_all
next
  case (Suc n)
  show ?case
  proof (cases nm)
    case None
    then show ?thesis by simp
  next
    case (Some m)
    let ?st4 = "fst (iteration env m st md)"
    have f: "initializedModel (snd (shift ?st4)) \<noteq> None" "reentered (snd (shift ?st4))"
      using Suc.prems by (simp_all add: shift_frame iteration_frame)
    have "loop (Suc n) (silent env) (unlogged st) (Some m) md =
            loop n (silent env) (unlogged (snd (shift ?st4))) (fst (shift ?st4))
              (snd (iteration env m st md))"
      using Suc.prems by (simp add: loop_Suc_reentered iteration_unlogged shift_unlogged)
    also have "\<dots> = map_option (\<lambda>sm. (unlogged (fst sm), snd sm))
                      (loop n env (snd (shift ?st4)) (fst (shift ?st4)) (snd (iteration env m st md)))"
      by (rule Suc.IH [OF f])
    also have "\<dots> = map_option (\<lambda>sm. (unlogged (fst sm), snd sm)) (loop (Suc n) env st (Some m) md)"
      using Suc.prems by (simp add: loop_Suc_reentered)
    finally show ?thesis using Some by simp
  qed
qed

lemma commit_unlogged: "commit (silent env) (unlogged st) = unlogged (commit env st)"
  by (simp add: commit_eq commitEvents_def unlogged_def)

lemma callMiddleware_unlogged:
  "callMiddleware (silent env) m (unlogged st) = unlogged (callMiddleware env m st)"
  by (simp add: callMiddleware_def unlogged_emit)

lemma dispatch_unlogged:
  "dispatch n (silent env) (unlogged st) m = map_option unlogged (dispatch n env st m)"
proof (cases "initializedModel st = None")
  case True
  then show ?thesis by (simp add: dispatch.simps)
next
  case ini: False
  show ?thesis
  proof (cases "reentered st")
    case True
    then show ?thesis
      using ini by (simp add: dispatch_reentered push_callMiddleware unlogged_def)
  next
    case False
    let ?st0 = "(callMiddleware env m st)\<lparr>reentered := True\<rparr>"
    have a: "initializedModel ?st0 \<noteq> None" "reentered ?st0"
      using ini by (simp_all add: callMiddleware_def emit_def)
    have nr: "\<not> reentered (callMiddleware env m st)"
      using False by (simp add: callMiddleware_def emit_def)
    have l: "loop n (silent env) ((callMiddleware (silent env) m (unlogged st))\<lparr>reentered := True\<rparr>) (Some m) False =
           map_option (\<lambda>sm. (unlogged (fst sm), snd sm)) (loop n env ?st0 (Some m) False)"
      using loop_unlogged [OF a, of n env "Some m" False] by (simp add: callMiddleware_unlogged)
    show ?thesis
    proof (cases "loop n env ?st0 (Some m) False")
      case None
      then show ?thesis
        using l ini nr False
        by (auto simp add: dispatch.simps [of n] callMiddleware_unlogged Let_def)
    next
      case (Some sm)
      obtain st2 md where sm: "sm = (st2, md)" by (cases sm)
      have c: "commit (silent env) ((unlogged st2)\<lparr>reentered := False\<rparr>) =
                 unlogged (commit env (st2\<lparr>reentered := False\<rparr>))"
        using commit_unlogged [of env "st2\<lparr>reentered := False\<rparr>"] by simp
      show ?thesis
        using l ini nr False Some sm c
        by (auto simp add: dispatch.simps [of n] callMiddleware_unlogged Let_def)
    qed
  qed
qed

lemma runEffect_unlogged:
  "runEffect n (silent env) e (unlogged st) =
     map_option (\<lambda>rs. (fst rs, unlogged (snd rs))) (runEffect n env e st)"
proof (induction e arbitrary: st rule: dispatched.induct)
  case 1
  then show ?case by simp
next
  case (2 ex rest)
  then show ?case by simp
next
  case (3 m rest)
  then show ?case
    by (cases "dispatch n env st m") (simp_all add: dispatch_unlogged)
qed

lemma execCmd_unlogged:
  "execCmd n (silent env) c (unlogged st) = map_option unlogged (execCmd n env c st)"
proof (induction c arbitrary: st)
  case Nil
  then show ?case by simp
next
  case (Cons call rest)
  have e: "runEffect n (silent env) call (emit (EffectCall call) (unlogged st)) =
     map_option (\<lambda>rs. (fst rs, unlogged (snd rs))) (runEffect n env call (emit (EffectCall call) st))"
    using runEffect_unlogged [of n env call "emit (EffectCall call) st"]
    by (simp add: unlogged_emit)
  show ?case
  proof (cases "runEffect n env call (emit (EffectCall call) st)")
    case None
    then show ?thesis using e by simp
  next
    case (Some rs)
    obtain r st1 where rs: "rs = (r, st1)" by (cases rs)
    show ?thesis
      using e Some rs Cons.IH [of st1] Cons.IH [of "log env (LogError (the r)) st1"]
      by (cases r) (simp_all add: unlogged_log)
  qed
qed

lemma initialize_unlogged:
  "initialize n (silent env) (unlogged st) = map_option unlogged (initialize n env st)"
proof -
  obtain initModel initCmd where i: "init env (props env) = (initModel, initCmd)"
    by (cases "init env (props env)")
  let ?st1 = "emit (SetModel initModel)
                (st\<lparr>initializedModel := Some \<lparr>addr = nextAddr st, ownProps = initModel\<rparr>,
                    nextAddr := Suc (nextAddr st), model := Some initModel\<rparr>)"
  have "initialize n env st = (case initCmd of None \<Rightarrow> Some ?st1 | Some c \<Rightarrow> execCmd n env c ?st1)"
    using i by (simp add: initialize_def Let_def)
  moreover have "initialize n (silent env) (unlogged st) =
     (case initCmd of None \<Rightarrow> Some (unlogged ?st1) | Some c \<Rightarrow> execCmd n (silent env) c (unlogged ?st1))"
    using i by (simp add: initialize_def unlogged_emit Let_def split: option.split)
  ultimately show ?thesis
    by (cases initCmd) (simp_all add: execCmd_unlogged)
qed

lemma rerender_unlogged:
  "rerender n (silent env) (unlogged st) = map_option unlogged (rerender n env st)"
proof (cases "model st")
  case (Some mdl)
  then show ?thesis by (simp add: rerender_def)
next
  case None
  obtain initModel initCmd where i: "init env (props env) = (initModel, initCmd)"
    by (cases "init env (props env)")
  let ?st1 = "emit (SetModel initModel) (st\<lparr>nextAddr := Suc (nextAddr st), model := Some initModel\<rparr>)"
  have "rerender n env st = (case initCmd of None \<Rightarrow> Some ?st1 | Some c \<Rightarrow> execCmd n env c ?st1)"
    using i None by (simp add: rerender_def Let_def)
  moreover have "rerender n (silent env) (unlogged st) =
     (case initCmd of None \<Rightarrow> Some (unlogged ?st1) | Some c \<Rightarrow> execCmd n (silent env) c (unlogged ?st1))"
    using i None by (simp add: rerender_def unlogged_emit Let_def split: option.split)
  ultimately show ?thesis
    by (cases initCmd) (simp_all add: execCmd_unlogged)
qed

lemma subscribe_unlogged:
  "subscribe n (silent env) (unlogged st) = map_option unlogged (subscribe n env st)"
proof (cases "subscription env")
  case None
  then show ?thesis by (simp add: subscribe_def)
next
  case (Some sub)
  obtain subCmd destr where s: "sub (initializedModel st) = (subCmd, destr)"
    by (cases "sub (initializedModel st)")
  let ?st1 = "emit (SubscriptionCall (initializedModel st)) st"
  have e: "execCmd n (silent env) subCmd (emit (SubscriptionCall (initializedModel st)) (unlogged st)) =
        map_option unlogged (execCmd n env subCmd ?st1)"
    using execCmd_unlogged [of n env subCmd ?st1] by (simp add: unlogged_emit)
  show ?thesis
    using Some s e by (cases "execCmd n env subCmd ?st1") (simp_all add: subscribe_def)
qed

lemma firstRender_unlogged: "firstRender (unlogged st) = unlogged (firstRender st)"
  by (simp add: firstRender_def)

lemma teardown_unlogged: "teardown (unlogged st) = unlogged (teardown st)"
  by (simp add: teardown_def unlogged_emit split: option.split)

lemma host_unlogged:
  "host n (silent env) evs (unlogged st) = map_option unlogged (host n env evs st)"
proof (induction evs arbitrary: st)
  case Nil
  then show ?case by simp
next
  case (Cons ev evs)
  show ?case
  proof (cases ev)
    case Render
    show ?thesis
    proof (cases "mounted st")
      case True
      then show ?thesis
        using Render Cons.IH
        by (cases "rerender n env st") (simp_all add: rerender_unlogged)
    next
      case False
      show ?thesis
      proof (cases "initialize n env (firstRender st)")
        case None
        then show ?thesis
          using Render False initialize_unlogged [of n env "firstRender st"]
          by (simp add: firstRender_unlogged)
      next
        case (Some st1)
        then show ?thesis
          using Render False initialize_unlogged [of n env "firstRender st"] Cons.IH
          by (cases "subscribe n env st1") (simp_all add: firstRender_unlogged subscribe_unlogged)
      qed
    qed
  next
    case (Call m)
    then show ?thesis
      using Cons.IH by (cases "dispatch n env st m") (simp_all add: dispatch_unlogged)
  next
    case Unmount
    then show ?thesis by (simp add: teardown_unlogged)
  qed
qed

text \<open>
  Claim C9. Running without the logger changes nothing but the log: from the same state,
  a call of \<open>dispatch\<close>, a call of \<open>execCmd\<close> and a whole life of the component (renders
  and any sequence of dispatched messages) return without the logger exactly when they
  return with it, and then the two states agree in the buffer, the accumulator, the host
  state and every other variable, and the trace without the logger is the trace with
  the logger minus the calls of the logger: the same update calls, effect calls, pushes
  and host writes in the same order.
\<close>

theorem logger_changes_only_the_log:
  "dispatch n (silent env) (unlogged st) m = map_option unlogged (dispatch n env st m) \<and>
   execCmd n (silent env) c (unlogged st) = map_option unlogged (execCmd n env c st) \<and>
   host n (silent env) evs (unlogged st) = map_option unlogged (host n env evs st)"
  by (simp add: dispatch_unlogged execCmd_unlogged host_unlogged)

theorem logger_changes_only_the_log_witness:
  "logger counter \<and> \<not> logger (silent counter) \<and> unlogged idle = idle \<and>
   dispatch 5 (silent counter) idle burst = map_option unlogged (dispatch 5 counter idle burst) \<and>
   map_option trace (dispatch 5 (silent counter) idle burst) =
     Some [MiddlewareCall burst,
           UpdateCall burst \<lparr>addr = 1, ownProps = [(''count'', JNum 0)]\<rparr>,
           EffectCall [Dispatch increment, Dispatch fail],
           MiddlewareCall increment, BufferPush increment,
           MiddlewareCall fail, BufferPush fail,
           EffectCall [Dispatch (Msg ''Nothing'' (JNum 1)), Throw (Thrown ''effect failed''),
                       Dispatch increment],
           MiddlewareCall (Msg ''Nothing'' (JNum 1)), BufferPush (Msg ''Nothing'' (JNum 1)),
           EffectCall [Dispatch increment],
           MiddlewareCall increment, BufferPush increment,
           UpdateCall increment \<lparr>addr = 2, ownProps = [(''count'', JNum 0)]\<rparr>,
           UpdateCall fail \<lparr>addr = 3, ownProps = [(''count'', JNum 1)]\<rparr>,
           UpdateCall (Msg ''Nothing'' (JNum 1)) \<lparr>addr = 4, ownProps = [(''count'', JNum 1)]\<rparr>,
           UpdateCall increment \<lparr>addr = 5, ownProps = [(''count'', JNum 1)]\<rparr>,
           SetModel [(''count'', JNum 2)]]"
proof -
  have u: "unlogged idle = idle" by (simp add: unlogged_def idle_def)
  have a: "dispatch 5 (silent counter) idle burst = map_option unlogged (dispatch 5 counter idle burst)"
    using logger_changes_only_the_log [of 5 counter idle burst] u by simp
  have b: "map_option trace (map_option unlogged (dispatch 5 counter idle burst)) =
     Some [MiddlewareCall burst,
           UpdateCall burst \<lparr>addr = 1, ownProps = [(''count'', JNum 0)]\<rparr>,
           EffectCall [Dispatch increment, Dispatch fail],
           MiddlewareCall increment, BufferPush increment,
           MiddlewareCall fail, BufferPush fail,
           EffectCall [Dispatch (Msg ''Nothing'' (JNum 1)), Throw (Thrown ''effect failed''),
                       Dispatch increment],
           MiddlewareCall (Msg ''Nothing'' (JNum 1)), BufferPush (Msg ''Nothing'' (JNum 1)),
           EffectCall [Dispatch increment],
           MiddlewareCall increment, BufferPush increment,
           UpdateCall increment \<lparr>addr = 2, ownProps = [(''count'', JNum 0)]\<rparr>,
           UpdateCall fail \<lparr>addr = 3, ownProps = [(''count'', JNum 1)]\<rparr>,
           UpdateCall (Msg ''Nothing'' (JNum 1)) \<lparr>addr = 4, ownProps = [(''count'', JNum 1)]\<rparr>,
           UpdateCall increment \<lparr>addr = 5, ownProps = [(''count'', JNum 1)]\<rparr>,
           SetModel [(''count'', JNum 2)]]"
    by code_simp
  show ?thesis using u a b by (simp add: counter_def silent_def)
qed

subsection \<open>The life of a component\<close>












end
